theory Spec2Isabelle
  imports Complex_Main
begin

section \<open>The cart page of the storefront (cart.js with utils.mjs)\<close>

text \<open>
  The cart page keeps the whole cart as one JSON array under the key \<open>so-cart\<close> of the
  browser's \<open>localStorage\<close>. Every operation of the page reads that array, merges line items
  that share an \<open>Id\<close> (\<open>combineDuplicateItems\<close>), changes it, writes it back and redraws.

  How the program is represented:
  \<^item> A JavaScript number is an IEEE double: a finite value (held as the rational it denotes),
    one of the two infinities, or \<open>NaN\<close>. Every sum, product and conversion from text rounds
    to the nearest double, ties to even, and overflows to an infinity (\<open>round_double\<close>), so
    the finite numbers the program holds are the rationals that \<open>round_double\<close> leaves as
    they are. The two zeros are one value: nothing here divides, and \<open>===\<close>, \<open>||\<close>, the
    keys of a \<open>Map\<close> and \<open>JSON.stringify\<close> do not tell them apart.
  \<^item> A string is a list of 8-bit code units; the white space among them is 9 to 13, 32 and 160.
  \<^item> A line item carries the fields the cart logic reads (\<open>Id\<close>, \<open>Name\<close>, \<open>FinalPrice\<close>,
    \<open>Quantity\<close>), each one missing or a scalar; the picture and colour fields, which only
    the markup uses, are left out. The elements of a stored array are objects.
  \<^item> The store holds, for each key, the text kept there: text that is not JSON, or the JSON
    value the text denotes, a number in it being the rational its literal denotes.
    \<open>JSON.parse\<close> rounds each number to a double; \<open>JSON.stringify\<close> writes \<open>NaN\<close> and the
    infinities as \<open>null\<close> and a finite number as a literal that denotes it.
  \<^item> The page has the elements its template gives it (\<open>.product-list\<close>, \<open>.cart-footer\<close>,
    \<open>.cart-total\<close>); the header's badge is loaded later and may be absent. The markup of a
    card and the two-decimal formatting of the total are left out.
\<close>

subsection \<open>Numbers\<close>

datatype jsnum = Fin rat | PInf | NInf | NaN

text \<open>
  Rounding a rational to the nearest double. For a magnitude \<open>a\<close> with
  \<open>2^e \<le> a < 2^(e+1)\<close> the doubles around \<open>a\<close> are the multiples of \<open>2^(e-52)\<close> (of
  \<open>2^(-1074)\<close> below \<open>2^(-1022)\<close>, the subnormal range); \<open>a\<close> goes to the nearest one, to
  the one with an even multiplier when it is half way, and a result of \<open>2^1024\<close> or more is
  an infinity.
\<close>

function bit_length :: "int \<Rightarrow> nat" where
  "bit_length n = (if n \<le> 0 then 0 else Suc (bit_length (n div 2)))"
  by auto
termination
  by (relation "measure nat") auto

definition pow2 :: "int \<Rightarrow> rat" where
  "pow2 e = power_int 2 e"

definition ilog2 :: "rat \<Rightarrow> int" where
  "ilog2 a =
     (let (p, q) = quotient_of a;
          e = int (bit_length p) - int (bit_length q)
      in if pow2 e \<le> a then e else e - 1)"

definition round_half_even :: "rat \<Rightarrow> int" where
  "round_half_even y =
     (let f = \<lfloor>y\<rfloor>; r = y - of_int f
      in if r < 1 / 2 then f else if 1 / 2 < r then f + 1 else if even f then f else f + 1)"

definition round_magnitude :: "rat \<Rightarrow> rat" where
  "round_magnitude a =
     (let e = max (ilog2 a) (- 1022);
          u = pow2 (e - 52)
      in of_int (round_half_even (a / u)) * u)"

definition round_double :: "rat \<Rightarrow> jsnum" where
  "round_double x =
     (if x = 0 then Fin 0
      else
        (let r = round_magnitude \<bar>x\<bar>
         in if pow2 1024 \<le> r then (if 0 < x then PInf else NInf)
            else Fin (if 0 < x then r else - r)))"

text \<open>The operators \<open>+\<close> and \<open>*\<close> on two numbers, and unary minus.\<close>

fun js_add :: "jsnum \<Rightarrow> jsnum \<Rightarrow> jsnum" where
  "js_add (Fin a) (Fin b) = round_double (a + b)"
| "js_add NaN y = NaN"
| "js_add x NaN = NaN"
| "js_add PInf NInf = NaN"
| "js_add NInf PInf = NaN"
| "js_add PInf y = PInf"
| "js_add x PInf = PInf"
| "js_add NInf y = NInf"
| "js_add x NInf = NInf"

fun is_negative :: "jsnum \<Rightarrow> bool" where
  "is_negative (Fin a) = (a < 0)"
| "is_negative NInf = True"
| "is_negative x = False"

fun js_mul :: "jsnum \<Rightarrow> jsnum \<Rightarrow> jsnum" where
  "js_mul (Fin a) (Fin b) = round_double (a * b)"
| "js_mul NaN y = NaN"
| "js_mul x NaN = NaN"
| "js_mul x y =
     (if x = Fin 0 \<or> y = Fin 0 then NaN
      else if is_negative x = is_negative y then PInf else NInf)"

fun js_neg :: "jsnum \<Rightarrow> jsnum" where
  "js_neg (Fin a) = Fin (- a)"
| "js_neg PInf = NInf"
| "js_neg NInf = PInf"
| "js_neg NaN = NaN"

text \<open>\<open>x || 1\<close> for a number \<open>x\<close>: the numbers that are falsy are \<open>0\<close> and \<open>NaN\<close>.\<close>

fun or_1 :: "jsnum \<Rightarrow> jsnum" where
  "or_1 NaN = Fin 1"
| "or_1 (Fin a) = (if a = 0 then Fin 1 else Fin a)"
| "or_1 x = x"

text \<open>\<open>Math.max(1, x)\<close>.\<close>

fun Math_max_1 :: "jsnum \<Rightarrow> jsnum" where
  "Math_max_1 NaN = NaN"
| "Math_max_1 PInf = PInf"
| "Math_max_1 NInf = Fin 1"
| "Math_max_1 (Fin a) = Fin (max 1 a)"

subsection \<open>Reading numbers from strings\<close>

definition is_white_space :: "char \<Rightarrow> bool" where
  "is_white_space c \<longleftrightarrow>
     c \<in> set [CHR 0x09, CHR 0x0A, CHR 0x0B, CHR 0x0C, CHR 0x0D, CHR 0x20, CHR 0xA0]"

definition is_digit :: "char \<Rightarrow> bool" where
  "is_digit c \<longleftrightarrow> c \<in> set ''0123456789''"

definition digit_value :: "char \<Rightarrow> int" where
  "digit_value c =
     (if is_digit c then of_char c - 48
      else if c \<in> set ''abcdef'' then of_char c - 87
      else of_char c - 55)"

definition digits_value :: "int \<Rightarrow> string \<Rightarrow> int" where
  "digits_value radix ds = foldl (\<lambda>a c. radix * a + digit_value c) 0 ds"

definition trim_start :: "string \<Rightarrow> string" where
  "trim_start s = dropWhile is_white_space s"

definition trim :: "string \<Rightarrow> string" where
  "trim s = rev (trim_start (rev (trim_start s)))"

text \<open>
  \<open>parseInt(string, 10)\<close>: leading white space is skipped, then an optional sign, then the
  longest run of decimal digits; whatever follows is ignored, and no digit at all gives \<open>NaN\<close>.
  The integer read is rounded to a double.
\<close>

definition parseInt10 :: "string \<Rightarrow> jsnum" where
  "parseInt10 inputString =
     (let S = trim_start inputString;
          sign = (case S of c # _ \<Rightarrow> if c = CHR ''-'' then - 1 else 1 | [] \<Rightarrow> (1::rat));
          S' = (case S of c # r \<Rightarrow> if c = CHR ''+'' \<or> c = CHR ''-'' then r else S | [] \<Rightarrow> S);
          Z = takeWhile is_digit S'
      in if Z = [] then NaN else round_double (sign * of_int (digits_value 10 Z)))"

text \<open>
  \<open>Number(string)\<close>: the string, trimmed on both sides, is empty (giving 0), \<open>Infinity\<close> or
  a decimal literal with an optional sign, fraction and exponent, or an unsigned literal in
  base 16, 8 or 2; anything else is \<open>NaN\<close>. The value of a literal is rounded to a double.
\<close>

definition all_digits :: "string \<Rightarrow> int option" where
  "all_digits ds = (if ds \<noteq> [] \<and> list_all is_digit ds then Some (digits_value 10 ds) else None)"

definition exponent_part :: "string \<Rightarrow> int option" where
  "exponent_part s =
     (case s of
        [] \<Rightarrow> Some 0
      | c # r \<Rightarrow>
          if c = CHR ''e'' \<or> c = CHR ''E'' then
            (case r of
               [] \<Rightarrow> None
             | d # r' \<Rightarrow>
                 if d = CHR ''+'' then all_digits r'
                 else if d = CHR ''-'' then map_option uminus (all_digits r')
                 else all_digits r)
          else None)"

definition scale10 :: "rat \<Rightarrow> int \<Rightarrow> rat" where
  "scale10 m e = (if 0 \<le> e then m * 10 ^ nat e else m / 10 ^ nat (- e))"

definition unsigned_decimal :: "string \<Rightarrow> jsnum" where
  "unsigned_decimal s =
     (let ip = takeWhile is_digit s; r1 = dropWhile is_digit s
      in if s = ''Infinity'' then PInf else
         case r1 of
           [] \<Rightarrow> if ip = [] then NaN else round_double (of_int (digits_value 10 ip))
         | c # r2 \<Rightarrow>
             if c = CHR ''.'' then
               (let fp = takeWhile is_digit r2; r3 = dropWhile is_digit r2
                in if ip = [] \<and> fp = [] then NaN
                   else (case exponent_part r3 of
                           None \<Rightarrow> NaN
                         | Some e \<Rightarrow>
                             round_double (scale10 (of_int (digits_value 10 ip)
                                    + of_int (digits_value 10 fp) / 10 ^ length fp) e)))
             else if ip = [] then NaN
             else (case exponent_part r1 of
                     None \<Rightarrow> NaN
                   | Some e \<Rightarrow> round_double (scale10 (of_int (digits_value 10 ip)) e)))"

definition radix_literal :: "string \<Rightarrow> int option" where
  "radix_literal s =
     (case s of
        z # x # ds \<Rightarrow>
          if z \<noteq> CHR ''0'' \<or> ds = [] then None
          else if x \<in> set ''xX'' then
            (if list_all (\<lambda>c. c \<in> set ''0123456789abcdefABCDEF'') ds
             then Some (digits_value 16 ds) else None)
          else if x \<in> set ''oO'' then
            (if list_all (\<lambda>c. c \<in> set ''01234567'') ds then Some (digits_value 8 ds) else None)
          else if x \<in> set ''bB'' then
            (if list_all (\<lambda>c. c \<in> set ''01'') ds then Some (digits_value 2 ds) else None)
          else None
      | _ \<Rightarrow> None)"

definition StringToNumber :: "string \<Rightarrow> jsnum" where
  "StringToNumber s =
     (let t = trim s
      in case t of
           [] \<Rightarrow> Fin 0
         | c # r \<Rightarrow>
             (case radix_literal t of
                Some n \<Rightarrow> round_double (of_int n)
              | None \<Rightarrow>
                  if c = CHR ''+'' then unsigned_decimal r
                  else if c = CHR ''-'' then js_neg (unsigned_decimal r)
                  else unsigned_decimal t))"

subsection \<open>Values\<close>

text \<open>
  The scalars a property can hold. A property read from an object is a \<open>jsval option\<close>:
  \<open>None\<close> when the property is missing (\<open>undefined\<close>). The key comparison of a \<open>Map\<close> is
  equality of such values.
\<close>

datatype jsval = JNull | JBool bool | JNum jsnum | JStr string

text \<open>\<open>Number(v)\<close> for a property read from an object.\<close>

fun Number :: "jsval option \<Rightarrow> jsnum" where
  "Number None = NaN"
| "Number (Some JNull) = Fin 0"
| "Number (Some (JBool b)) = Fin (if b then 1 else 0)"
| "Number (Some (JNum a)) = a"
| "Number (Some (JStr s)) = StringToNumber s"

text \<open>
  A scalar as \<open>JSON.stringify\<close> writes it: \<open>NaN\<close> and the infinities become \<open>null\<close>, a finite
  number becomes a literal that denotes it. A scalar as \<open>JSON.parse\<close> reads it: the number
  that a literal denotes is rounded to a double.
\<close>

fun JSON_stringify_value :: "jsval \<Rightarrow> jsval" where
  "JSON_stringify_value (JNum (Fin a)) = JNum (Fin a)"
| "JSON_stringify_value (JNum x) = JNull"
| "JSON_stringify_value v = v"

fun JSON_parse_value :: "jsval \<Rightarrow> jsval" where
  "JSON_parse_value (JNum (Fin a)) = JNum (round_double a)"
| "JSON_parse_value v = v"

subsection \<open>Line items, the stored cart and the page\<close>

text \<open>A line item; \<open>ItemId\<close> is its property \<open>Id\<close>.\<close>

record item =
  ItemId :: "jsval option"
  Name :: "jsval option"
  FinalPrice :: "jsval option"
  Quantity :: "jsval option"

definition map_item :: "(jsval \<Rightarrow> jsval) \<Rightarrow> item \<Rightarrow> item" where
  "map_item f i =
     \<lparr>ItemId = map_option f (ItemId i), Name = map_option f (Name i),
      FinalPrice = map_option f (FinalPrice i), Quantity = map_option f (Quantity i)\<rparr>"

text \<open>
  A JSON value: a scalar, an object that is not an array, or an array of line items. The
  text kept under a key is not JSON, or denotes such a value.
\<close>

datatype json = JScalar jsval | JObject | JArray "item list"

fun map_json :: "(jsval \<Rightarrow> jsval) \<Rightarrow> json \<Rightarrow> json" where
  "map_json f (JScalar v) = JScalar (f v)"
| "map_json f JObject = JObject"
| "map_json f (JArray xs) = JArray (map (map_item f) xs)"

definition JSON_stringify :: "json \<Rightarrow> json" where
  "JSON_stringify data = map_json JSON_stringify_value data"

definition JSON_parse :: "json \<Rightarrow> json" where
  "JSON_parse doc = map_json JSON_parse_value doc"

datatype stored = NotJson | Json json

type_synonym storage = "string \<Rightarrow> stored option"

datatype error = SyntaxError | TypeError

text \<open>
  The page: the store, the cards shown in \<open>.product-list\<close>, the number shown in
  \<open>.cart-total\<close>, whether \<open>.cart-footer\<close> has the class \<open>hide\<close>, and the header's badge (the
  number in \<open>.cart-count\<close> and whether \<open>.cart-count-badge\<close> has the class \<open>hide\<close>) once the
  header is there. A \<open>target\<close> is the element an event comes from.
\<close>

record badge =
  cart_count :: jsnum
  badge_hide :: bool

record page =
  localStorage :: storage
  product_list :: "item list"
  cart_total :: jsnum
  cart_footer_hide :: bool
  header_badge :: "badge option"

record target =
  classList :: "string list"
  dataset_id :: "string option"
  input_value :: string

subsection \<open>utils.mjs\<close>

text \<open>
  \<open>getLocalStorage(key)\<close> is \<open>JSON.parse(localStorage.getItem(key))\<close>: a missing key reads as
  \<open>null\<close>, which parses to \<open>null\<close>; text that is not JSON makes \<open>JSON.parse\<close> throw.
  \<open>setLocalStorage(key, data)\<close> is \<open>localStorage.setItem(key, JSON.stringify(data))\<close>.
\<close>

definition getLocalStorage :: "storage \<Rightarrow> string \<Rightarrow> error + json" where
  "getLocalStorage st key =
     (case st key of
        None \<Rightarrow> Inr (JScalar JNull)
      | Some NotJson \<Rightarrow> Inl SyntaxError
      | Some (Json doc) \<Rightarrow> Inr (JSON_parse doc))"

definition setLocalStorage :: "storage \<Rightarrow> string \<Rightarrow> json \<Rightarrow> storage" where
  "setLocalStorage st key data = st(key \<mapsto> Json (JSON_stringify data))"

fun truthy :: "json \<Rightarrow> bool" where
  "truthy (JScalar JNull) = False"
| "truthy (JScalar (JBool b)) = b"
| "truthy (JScalar (JNum a)) = (a \<noteq> Fin 0 \<and> a \<noteq> NaN)"
| "truthy (JScalar (JStr s)) = (s \<noteq> [])"
| "truthy JObject = True"
| "truthy (JArray xs) = True"

text \<open>\<open>v || []\<close>, and the array methods (\<open>forEach\<close>, \<open>reduce\<close>) that only an array has.\<close>

definition or_empty :: "json \<Rightarrow> json" where
  "or_empty v = (if truthy v then v else JArray [])"

definition array_of :: "json \<Rightarrow> error + item list" where
  "array_of v = (case v of JArray xs \<Rightarrow> Inr xs | _ \<Rightarrow> Inl TypeError)"

text \<open>
  \<open>countCartItems\<close> reads the stored cart as it is, without merging, returns when the badge
  is not in the document, and otherwise shows the sum of the quantities or hides the badge.
\<close>

definition countCartItems :: "page \<Rightarrow> error + page" where
  "countCartItems s =
     (case getLocalStorage (localStorage s) ''so-cart'' of
        Inl e \<Rightarrow> Inl e
      | Inr v \<Rightarrow>
          (case header_badge s of
             None \<Rightarrow> Inr s
           | Some b \<Rightarrow>
               (case array_of (or_empty v) of
                  Inl e \<Rightarrow> Inl e
                | Inr cartItems \<Rightarrow>
                    (let totalQty =
                       foldl (\<lambda>acc item. js_add acc (or_1 (Number (Quantity item)))) (Fin 0)
                         cartItems
                     in if totalQty = Fin 0
                        then Inr (s\<lparr>header_badge := Some (b\<lparr>badge_hide := True\<rparr>)\<rparr>)
                        else Inr (s\<lparr>header_badge :=
                                    Some (b\<lparr>cart_count := totalQty, badge_hide := False\<rparr>)\<rparr>)))))"

subsection \<open>cart.js\<close>

text \<open>
  The \<open>Map\<close> of \<open>combineDuplicateItems\<close> keeps its entries in the order their keys were first
  set, so it is an association list: \<open>Map_set\<close> replaces the value of a key that is there, in
  place, and appends a key that is not.
\<close>

type_synonym byId = "(jsval option \<times> item) list"

fun Map_get :: "byId \<Rightarrow> jsval option \<Rightarrow> item option" where
  "Map_get [] k = None"
| "Map_get ((k', v) # m) k = (if k' = k then Some v else Map_get m k)"

fun Map_set :: "byId \<Rightarrow> jsval option \<Rightarrow> item \<Rightarrow> byId" where
  "Map_set [] k v = [(k, v)]"
| "Map_set ((k', v') # m) k v = (if k' = k then (k, v) # m else (k', v') # Map_set m k v)"

text \<open>
  \<open>existing.Quantity += quantity\<close>. The objects in the \<open>Map\<close> are the copies made on line 33,
  whose \<open>Quantity\<close> is a number, so the sum is a sum of numbers (\<open>byId_Quantity_number\<close>
  below); the other cases are never reached and leave the value as it is. The assignment
  changes the object that the \<open>Map\<close> holds under that key: in \<open>forEach_body\<close> the changed
  object takes the place of the old one.
\<close>

fun add_assign :: "jsval option \<Rightarrow> jsnum \<Rightarrow> jsval option" where
  "add_assign (Some (JNum a)) quantity = Some (JNum (js_add a quantity))"
| "add_assign v quantity = v"

definition forEach_body :: "byId \<Rightarrow> item \<Rightarrow> byId" where
  "forEach_body m item =
     (let quantity = or_1 (Number (Quantity item))
      in case Map_get m (ItemId item) of
           Some existing \<Rightarrow>
             Map_set m (ItemId item)
               (existing\<lparr>Quantity := add_assign (Quantity existing) quantity\<rparr>)
         | None \<Rightarrow> Map_set m (ItemId item) (item\<lparr>Quantity := Some (JNum quantity)\<rparr>))"

definition combineDuplicateItems :: "item list \<Rightarrow> item list" where
  "combineDuplicateItems items = map snd (foldl forEach_body [] items)"

text \<open>
  \<open>combineDuplicateItems(getLocalStorage("so-cart") || [])\<close>, the first line of every
  operation of the page.
\<close>

definition loadCartItems :: "page \<Rightarrow> error + item list" where
  "loadCartItems s =
     (case getLocalStorage (localStorage s) ''so-cart'' of
        Inl e \<Rightarrow> Inl e
      | Inr v \<Rightarrow>
          (case array_of (or_empty v) of
             Inl e \<Rightarrow> Inl e
           | Inr items \<Rightarrow> Inr (combineDuplicateItems items)))"

text \<open>The list region shows one card for each item, in order.\<close>

definition renderCartContents :: "page \<Rightarrow> error + page" where
  "renderCartContents s =
     (case loadCartItems s of
        Inl e \<Rightarrow> Inl e
      | Inr cartItems \<Rightarrow>
          Inr (s\<lparr>localStorage := setLocalStorage (localStorage s) ''so-cart'' (JArray cartItems),
                 product_list := cartItems\<rparr>))"

text \<open>The \<open>reduce\<close> of \<open>getCartTotal\<close>, and the function itself: it returns the total.\<close>

definition reduce_total :: "item list \<Rightarrow> jsnum" where
  "reduce_total cartItems =
     foldl (\<lambda>acc item.
              js_add acc (js_mul (Number (FinalPrice item)) (or_1 (Number (Quantity item)))))
       (Fin 0) cartItems"

definition getCartTotal :: "page \<Rightarrow> error + page \<times> jsnum" where
  "getCartTotal s =
     (case loadCartItems s of
        Inl e \<Rightarrow> Inl e
      | Inr cartItems \<Rightarrow>
          (let finalTotal = reduce_total cartItems
           in Inr (s\<lparr>cart_total := finalTotal, cart_footer_hide := (finalTotal = Fin 0)\<rparr>,
                   finalTotal)))"

text \<open>
  Strict equality \<open>===\<close> of two property values: the same value, except that \<open>NaN\<close> equals
  nothing. Against a string or \<open>undefined\<close> it is plain equality.
\<close>

definition strict_equal :: "jsval option \<Rightarrow> jsval option \<Rightarrow> bool" where
  "strict_equal a b \<longleftrightarrow> a = b \<and> a \<noteq> Some (JNum NaN)"

text \<open>
  \<open>removeFromCart(itemId)\<close>, and the two listeners on the document; \<open>dataset.id\<close> is a
  string, or \<open>undefined\<close> when the element has no \<open>data-id\<close>.
\<close>

definition removeFromCart :: "page \<Rightarrow> jsval option \<Rightarrow> error + page" where
  "removeFromCart s itemId =
     (case loadCartItems s of
        Inl e \<Rightarrow> Inl e
      | Inr cartItems \<Rightarrow>
          (let updatedCart = filter (\<lambda>item. \<not> strict_equal (ItemId item) itemId) cartItems;
               s1 = s\<lparr>localStorage :=
                        setLocalStorage (localStorage s) ''so-cart'' (JArray updatedCart)\<rparr>
           in case renderCartContents s1 of
                Inl e \<Rightarrow> Inl e
              | Inr s2 \<Rightarrow>
                  (case getCartTotal s2 of
                     Inl e \<Rightarrow> Inl e
                   | Inr (s3, finalTotal) \<Rightarrow> countCartItems s3)))"

definition click_listener :: "page \<Rightarrow> target \<Rightarrow> error + page" where
  "click_listener s t =
     (if ''cart-card__remove'' \<in> set (classList t)
      then removeFromCart s (map_option JStr (dataset_id t))
      else Inr s)"

text \<open>\<open>item.Quantity = quantity\<close> on the item that \<open>find\<close> returned: the first with that \<open>Id\<close>.\<close>

fun assign_Quantity :: "jsval option \<Rightarrow> jsnum \<Rightarrow> item list \<Rightarrow> item list" where
  "assign_Quantity itemId quantity [] = []"
| "assign_Quantity itemId quantity (x # xs) =
     (if ItemId x = itemId then x\<lparr>Quantity := Some (JNum quantity)\<rparr> # xs
      else x # assign_Quantity itemId quantity xs)"

definition change_listener :: "page \<Rightarrow> target \<Rightarrow> error + page" where
  "change_listener s t =
     (if ''cart-card__quantity-input'' \<in> set (classList t) then
        (let itemId = map_option JStr (dataset_id t);
             quantity = Math_max_1 (or_1 (parseInt10 (input_value t)))
         in case loadCartItems s of
              Inl e \<Rightarrow> Inl e
            | Inr cartItems \<Rightarrow>
                (case find (\<lambda>cartItem. ItemId cartItem = itemId) cartItems of
                   None \<Rightarrow> Inr s
                 | Some item \<Rightarrow>
                     (let s1 = s\<lparr>localStorage :=
                                  setLocalStorage (localStorage s) ''so-cart''
                                    (JArray (assign_Quantity itemId quantity cartItems))\<rparr>
                      in case renderCartContents s1 of
                           Inl e \<Rightarrow> Inl e
                         | Inr s2 \<Rightarrow>
                             (case getCartTotal s2 of
                                Inl e \<Rightarrow> Inl e
                              | Inr (s3, finalTotal) \<Rightarrow> countCartItems s3))))
      else Inr s)"

subsection \<open>Notions used to state the properties\<close>

text \<open>
  The quantity the code counts for a line item, \<open>Number(item.Quantity) || 1\<close>, and an item
  with its \<open>Quantity\<close> replaced by it, as line 33 stores it.
\<close>

definition counted :: "item \<Rightarrow> jsnum" where
  "counted item = or_1 (Number (Quantity item))"

definition coerce_Quantity :: "item \<Rightarrow> item" where
  "coerce_Quantity item = item\<lparr>Quantity := Some (JNum (counted item))\<rparr>"

text \<open>
  The sum of a list of numbers as the code adds them, from the left, and the sum of the
  \<open>Quantity\<close> fields of a list of items.
\<close>

definition js_sum :: "jsnum list \<Rightarrow> jsnum" where
  "js_sum ns = foldl js_add (Fin 0) ns"

definition Quantity_sum :: "item list \<Rightarrow> jsnum" where
  "Quantity_sum items = js_sum (map (\<lambda>item. Number (Quantity item)) items)"

text \<open>
  Sums that no addition rounds: the numbers are integers, and their magnitudes add up to
  at most \<open>2^53\<close>, so that every partial sum is an integer that a double holds exactly.
\<close>

fun integer_valued :: "jsnum \<Rightarrow> bool" where
  "integer_valued (Fin a) = (of_int \<lfloor>a\<rfloor> = a)"
| "integer_valued x = False"

fun magnitude :: "jsnum \<Rightarrow> rat" where
  "magnitude (Fin a) = \<bar>a\<bar>"
| "magnitude x = 0"

fun finite_value :: "jsnum \<Rightarrow> rat" where
  "finite_value (Fin a) = a"
| "finite_value x = 0"

definition exactly_summable :: "jsnum list \<Rightarrow> bool" where
  "exactly_summable ns \<longleftrightarrow> list_all integer_valued ns \<and> sum_list (map magnitude ns) \<le> 2 ^ 53"

text \<open>The same for the total: integer prices and quantities, products within \<open>2^53\<close>.\<close>

definition exactly_totalled :: "item list \<Rightarrow> bool" where
  "exactly_totalled items \<longleftrightarrow>
     list_all (\<lambda>item. integer_valued (Number (FinalPrice item)) \<and> integer_valued (counted item))
       items
     \<and> (\<Sum>item\<leftarrow>items. magnitude (Number (FinalPrice item)) * magnitude (counted item)) \<le> 2 ^ 53"

text \<open>
  The invariant of the \<open>Map\<close>: an entry sits under its own \<open>Id\<close> and its \<open>Quantity\<close> is a
  number with a property \<open>P\<close>.
\<close>

definition entry_ok :: "(jsnum \<Rightarrow> bool) \<Rightarrow> jsval option \<times> item \<Rightarrow> bool" where
  "entry_ok P e \<longleftrightarrow> ItemId (snd e) = fst e \<and> (\<exists>n. Quantity (snd e) = Some (JNum n) \<and> P n)"

definition positive_integer :: "rat \<Rightarrow> bool" where
  "positive_integer a \<longleftrightarrow> of_int \<lfloor>a\<rfloor> = a \<and> 1 \<le> a"

definition Quantities_positive_integers :: "item list \<Rightarrow> bool" where
  "Quantities_positive_integers items =
     list_all (\<lambda>item. case Quantity item of
                        Some (JNum (Fin a)) \<Rightarrow> positive_integer a | _ \<Rightarrow> False)
       items"

text \<open>The array kept under \<open>so-cart\<close>, when there is one.\<close>

definition persisted_cart :: "page \<Rightarrow> item list" where
  "persisted_cart s =
     (case localStorage s ''so-cart'' of Some (Json (JArray items)) \<Rightarrow> items | _ \<Rightarrow> [])"

text \<open>
  The key is absent, or its text parses to a falsy value: \<open>null\<close>, \<open>false\<close>, \<open>0\<close> or the empty
  string.
\<close>

definition absent_or_falsy :: "stored option \<Rightarrow> bool" where
  "absent_or_falsy v =
     (case v of
        None \<Rightarrow> True
      | Some NotJson \<Rightarrow> False
      | Some (Json doc) \<Rightarrow> \<not> truthy (JSON_parse doc))"

text \<open>
  A line item as the page reads it back after writing it, and a line item that a write and
  the redraw after it leave as it is: \<open>JSON.stringify\<close> keeps every field (none is \<open>NaN\<close> or
  an infinity) and the \<open>Quantity\<close> is not 0.
\<close>

definition JSON_value :: "jsval \<Rightarrow> jsval" where
  "JSON_value v = JSON_parse_value (JSON_stringify_value v)"

definition JSON_item :: "item \<Rightarrow> item" where
  "JSON_item i = map_item JSON_parse_value (map_item JSON_stringify_value i)"

definition kept_as_is :: "item \<Rightarrow> bool" where
  "kept_as_is item \<longleftrightarrow>
     map_item JSON_stringify_value item = item \<and> Quantity item \<noteq> Some (JNum (Fin 0))"

text \<open>
  A number that is a double, and a line item whose numbers are doubles: the ones that
  \<open>JSON.parse\<close> gives back as they are.
\<close>

definition is_double :: "jsnum \<Rightarrow> bool" where
  "is_double n = (case n of Fin a \<Rightarrow> round_double a = Fin a | _ \<Rightarrow> True)"

definition double_fields :: "item \<Rightarrow> bool" where
  "double_fields i \<longleftrightarrow> map_item JSON_parse_value i = i"

text \<open>
  The quantity that set-quantity leaves stored for a raw input: the integer that
  \<open>parseInt(rawValue, 10)\<close> reads when that is a finite number of at least 1, and 1 otherwise.
\<close>

definition clamped_quantity :: "string \<Rightarrow> rat" where
  "clamped_quantity rawValue =
     (case parseInt10 rawValue of Fin a \<Rightarrow> if a < 1 then 1 else a | _ \<Rightarrow> 1)"

subsection \<open>The specification's wording, for comparison with the code\<close>

text \<open>
  The specification counts a quantity as 1 when it is missing, \<open>null\<close> or not coercible to a
  number, and as its numeric value otherwise.
\<close>

definition claimed_quantity :: "jsval option \<Rightarrow> jsnum" where
  "claimed_quantity q =
     (case q of
        None \<Rightarrow> Fin 1
      | Some JNull \<Rightarrow> Fin 1
      | _ \<Rightarrow> (case Number q of NaN \<Rightarrow> Fin 1 | n \<Rightarrow> n))"

definition claimed_input_sum :: "item list \<Rightarrow> jsnum" where
  "claimed_input_sum items = js_sum (map (\<lambda>item. claimed_quantity (Quantity item)) items)"

text \<open>The total as the specification words it: price times quantity over the normalized items.\<close>

definition claimed_total :: "item list \<Rightarrow> jsnum" where
  "claimed_total items =
     js_sum (map (\<lambda>item. js_mul (Number (FinalPrice item)) (claimed_quantity (Quantity item)))
               (combineDuplicateItems items))"

text \<open>The cart after \<open>remove(id)\<close> as the specification words it.\<close>

definition claimed_after_remove :: "jsval option \<Rightarrow> item list \<Rightarrow> item list" where
  "claimed_after_remove itemId items =
     filter (\<lambda>item. ItemId item \<noteq> itemId) (combineDuplicateItems items)"

text \<open>
  The specification's set-quantity snaps every non-numeric input, and every input below 1,
  to 1: an input is numeric when \<open>Number\<close> reads a number from it.
\<close>

definition claimed_snaps_to_1 :: "string \<Rightarrow> bool" where
  "claimed_snaps_to_1 rawValue =
     (case StringToNumber rawValue of Fin a \<Rightarrow> a < 1 | NInf \<Rightarrow> True | PInf \<Rightarrow> False
      | NaN \<Rightarrow> True)"

subsection \<open>Concrete carts and pages\<close>

text \<open>
  A number written as a literal, \<open>num a\<close>, is the double nearest to \<open>a\<close>; a line item has an
  \<open>Id\<close>, a price written as a literal, and a \<open>Quantity\<close>.
\<close>

definition num :: "rat \<Rightarrow> jsval option" where
  "num a = Some (JNum (round_double a))"

definition line_item :: "string \<Rightarrow> rat \<Rightarrow> jsval option \<Rightarrow> item" where
  "line_item i p q = \<lparr>ItemId = Some (JStr i), Name = None, FinalPrice = num p, Quantity = q\<rparr>"

text \<open>A page that has not been drawn yet, with the given text under \<open>so-cart\<close>.\<close>

definition page_with :: "stored option \<Rightarrow> page" where
  "page_with v =
     \<lparr>localStorage = (\<lambda>key. if key = ''so-cart'' then v else None), product_list = [],
      cart_total = NaN, cart_footer_hide = False,
      header_badge = Some \<lparr>cart_count = Fin 0, badge_hide = True\<rparr>\<rparr>"

definition quantity_input :: "string \<Rightarrow> string \<Rightarrow> target" where
  "quantity_input i v =
     \<lparr>classList = [''cart-card__quantity-input''], dataset_id = Some i, input_value = v\<rparr>"

section \<open>Properties\<close>

subsection \<open>Rounding\<close>

declare bit_length.simps [simp del]

lemma bit_length_lower: "0 < n \<Longrightarrow> 2 ^ (bit_length n - 1) \<le> n"
proof (induction n rule: bit_length.induct)
  case (1 n)
  show ?case
  proof (cases "n div 2 \<le> 0")
    case True
    with "1.prems" have "n = 1" by simp
    then show ?thesis by (simp add: bit_length.simps)
  next
    case False
    then have "2 ^ (bit_length (n div 2) - 1) \<le> n div 2"
      using "1.IH" "1.prems" by simp
    moreover have "bit_length n = Suc (bit_length (n div 2))"
      using "1.prems" by (simp add: bit_length.simps)
    moreover have "0 < bit_length (n div 2)"
      using False by (simp add: bit_length.simps)
    ultimately have "2 ^ (bit_length n - 1) \<le> 2 * (n div 2)"
      by (cases "bit_length (n div 2)") auto
    then show ?thesis by linarith
  qed
qed

lemma bit_length_upper: "n < 2 ^ bit_length n"
proof (induction n rule: bit_length.induct)
  case (1 n)
  show ?case
  proof (cases "n \<le> 0")
    case True
    then have "n < 1" by simp
    also have "(1::int) \<le> 2 ^ bit_length n" by simp
    finally show ?thesis .
  next
    case False
    then have "n div 2 < 2 ^ bit_length (n div 2)"
      using "1.IH" by simp
    moreover have "bit_length n = Suc (bit_length (n div 2))"
      using False by (simp add: bit_length.simps)
    ultimately show ?thesis by simp
  qed
qed

lemma pow2_pos: "0 < pow2 e"
  by (simp add: pow2_def)

lemma ilog2_lower:
  assumes "0 < a"
  shows "pow2 (ilog2 a) \<le> a"
proof -
  obtain p q where pq: "quotient_of a = (p, q)" by (cases "quotient_of a")
  then have q: "0 < q" and a: "a = of_int p / of_int q"
    by (simp_all add: quotient_of_denom_pos quotient_of_div)
  from a assms q have p: "0 < p"
    by (simp add: zero_less_divide_iff)
  let ?bp = "bit_length p" and ?bq = "bit_length q"
  have 1: "(2::rat) ^ (?bp - 1) \<le> of_int p"
  proof -
    have "2 ^ (?bp - 1) \<le> p" using p by (rule bit_length_lower)
    then have "of_int (2 ^ (?bp - 1)) \<le> (of_int p :: rat)"
      by (simp only: of_int_le_iff)
    then show ?thesis by simp
  qed
  have 2: "of_int q < (2::rat) ^ ?bq"
  proof -
    have "q < 2 ^ ?bq" by (rule bit_length_upper)
    then have "(of_int q :: rat) < of_int (2 ^ ?bq)"
      by (simp only: of_int_less_iff)
    then show ?thesis by simp
  qed
  have bp: "0 < ?bp" using p by (simp add: bit_length.simps)
  have "pow2 (int ?bp - int ?bq - 1) = 2 ^ (?bp - 1) / 2 ^ ?bq"
  proof -
    have "int ?bp - int ?bq - 1 = int (?bp - 1) - int ?bq" using bp by simp
    then have "pow2 (int ?bp - int ?bq - 1) = power_int 2 (int (?bp - 1) - int ?bq)"
      by (simp only: pow2_def)
    also have "\<dots> = power_int 2 (int (?bp - 1)) / power_int 2 (int ?bq)"
      by (rule power_int_diff) simp
    finally show ?thesis by (simp only: power_int_of_nat)
  qed
  also have "\<dots> \<le> of_int p / of_int q"
    using 1 2 q p by (intro frac_le) auto
  finally have "pow2 (int ?bp - int ?bq - 1) \<le> a" using a by simp
  then show ?thesis
    using pq by (simp add: ilog2_def Let_def)
qed

lemma round_half_even_int: "y \<in> \<int> \<Longrightarrow> of_int (round_half_even y) = y"
  by (auto simp: round_half_even_def Let_def elim!: Ints_cases)

lemma ilog2_upper:
  assumes "0 < a"
  shows "a < pow2 (ilog2 a + 1)"
proof -
  obtain p q where pq: "quotient_of a = (p, q)" by (cases "quotient_of a")
  then have q: "0 < q" and a: "a = of_int p / of_int q"
    by (simp_all add: quotient_of_denom_pos quotient_of_div)
  from a assms q have p: "0 < p"
    by (simp add: zero_less_divide_iff)
  let ?bp = "bit_length p" and ?bq = "bit_length q"
  let ?e = "int ?bp - int ?bq"
  show ?thesis
  proof (cases "pow2 ?e \<le> a")
    case False
    then show ?thesis using pq by (simp add: ilog2_def Let_def)
  next
    case True
    have 1: "of_int p < (2::rat) ^ ?bp"
    proof -
      have "p < 2 ^ ?bp" by (rule bit_length_upper)
      then have "(of_int p :: rat) < of_int (2 ^ ?bp)"
        by (simp only: of_int_less_iff)
      then show ?thesis by simp
    qed
    have 2: "(2::rat) ^ (?bq - 1) \<le> of_int q"
    proof -
      have "2 ^ (?bq - 1) \<le> q" using q by (rule bit_length_lower)
      then have "of_int (2 ^ (?bq - 1)) \<le> (of_int q :: rat)"
        by (simp only: of_int_le_iff)
      then show ?thesis by simp
    qed
    have bq: "0 < ?bq" using q by (simp add: bit_length.simps)
    have "a = of_int p / of_int q" by (rule a)
    also have "\<dots> < 2 ^ ?bp / 2 ^ (?bq - 1)"
      using 1 2 p q by (intro frac_less) auto
    also have "\<dots> = pow2 (?e + 1)"
    proof -
      have "?e + 1 = int ?bp - int (?bq - 1)" using bq by simp
      then have "pow2 (?e + 1) = power_int 2 (int ?bp - int (?bq - 1))"
        by (simp only: pow2_def)
      also have "\<dots> = power_int 2 (int ?bp) / power_int 2 (int (?bq - 1))"
        by (rule power_int_diff) simp
      finally show ?thesis by (simp only: power_int_of_nat)
    qed
    finally show ?thesis using True pq by (simp add: ilog2_def Let_def)
  qed
qed

lemma pow2_mono: "pow2 m \<le> pow2 n \<longleftrightarrow> m \<le> n"
proof
  assume "m \<le> n"
  then show "pow2 m \<le> pow2 n"
    unfolding pow2_def by (intro power_int_increasing) auto
next
  assume le: "pow2 m \<le> pow2 n"
  show "m \<le> n"
  proof (rule ccontr)
    assume "\<not> m \<le> n"
    then have "n < m" by simp
    then have "pow2 n < pow2 m"
      unfolding pow2_def by (intro power_int_strict_increasing) auto
    with le show False by simp
  qed
qed

lemma pow2_strict_mono: "pow2 m < pow2 n \<longleftrightarrow> m < n"
  using pow2_mono [of n m] by (auto simp: not_le [symmetric])

lemma ilog2_unique:
  assumes "pow2 e \<le> a" and "a < pow2 (e + 1)"
  shows "ilog2 a = e"
proof -
  have pos: "0 < a" using assms(1) pow2_pos [of e] by linarith
  have "pow2 (ilog2 a) < pow2 (e + 1)"
    using ilog2_lower [OF pos] assms(2) by linarith
  then have 1: "ilog2 a < e + 1" by (simp only: pow2_strict_mono)
  have "pow2 e < pow2 (ilog2 a + 1)"
    using ilog2_upper [OF pos] assms(1) by linarith
  then have 2: "e < ilog2 a + 1" by (simp only: pow2_strict_mono)
  from 1 2 show ?thesis by simp
qed

lemma pow2_nat: "0 \<le> e \<Longrightarrow> pow2 e = 2 ^ nat e"
  by (simp add: pow2_def power_int_def)

lemma pow2_neg: "e \<le> 0 \<Longrightarrow> pow2 e = 1 / 2 ^ nat (- e)"
  by (auto simp: pow2_def power_int_def field_simps)

text \<open>An integer divided by the quantum is an integer when the exponent is at most 52.\<close>

lemma quotient_Ints:
  assumes "a \<in> \<int>" and "e \<le> 52"
  shows "a / pow2 (e - 52) \<in> \<int>"
proof -
  have "a / pow2 (e - 52) = a * 2 ^ nat (52 - e)"
    using assms(2) by (simp add: pow2_neg)
  then show ?thesis using assms(1) by simp
qed

lemma round_magnitude_safe_integer:
  assumes a: "a \<in> \<int>" "0 < a" and b: "a \<le> 2 ^ 53"
  shows "round_magnitude a = a"
proof -
  let ?e = "max (ilog2 a) (- 1022)"
  let ?u = "pow2 (?e - 52)"
  have q: "a / ?u \<in> \<int>"
  proof (cases "?e \<le> 52")
    case True
    with a(1) show ?thesis by (rule quotient_Ints)
  next
    case False
    then have e: "?e = ilog2 a" by (simp add: max_def split: if_splits)
    have "pow2 ?e \<le> a" unfolding e using a(2) by (rule ilog2_lower)
    also have "a \<le> pow2 53" using b by (simp add: pow2_nat)
    finally have "?e \<le> 53" by (simp only: pow2_mono)
    with False have e53: "?e = 53" by simp
    have "pow2 53 \<le> a" using \<open>pow2 ?e \<le> a\<close> e53 by simp
    with b have a53: "a = 2 ^ 53" by (simp add: pow2_nat)
    have "?u = 2" by (simp only: e53) (simp add: pow2_nat)
    then have "a / ?u = a / 2" by simp
    also have "\<dots> = of_int (2 ^ 52)" by (subst a53) simp
    finally show ?thesis by (simp only: Ints_of_int)
  qed
  show ?thesis
    using round_half_even_int [OF q] pow2_pos [of "?e - 52"]
    by (simp add: round_magnitude_def Let_def)
qed

lemma not_overflow: "a \<le> 2 ^ 53 \<Longrightarrow> \<not> pow2 1024 \<le> a"
proof -
  assume le: "a \<le> 2 ^ 53"
  have lt: "(2::rat) ^ 53 < 2 ^ 1024" by (intro power_strict_increasing) auto
  have "pow2 1024 = 2 ^ 1024" by (simp add: pow2_nat del: power_numeral)
  with le lt show ?thesis by linarith
qed

lemma round_double_safe_integer:
  assumes x: "x \<in> \<int>" and b: "\<bar>x\<bar> \<le> 2 ^ 53"
  shows "round_double x = Fin x"
proof (cases "x = 0")
  case True
  then show ?thesis by (simp add: round_double_def)
next
  case False
  have r: "round_magnitude \<bar>x\<bar> = \<bar>x\<bar>"
    using x False b by (intro round_magnitude_safe_integer) auto
  have "round_double x = Fin (if 0 < x then \<bar>x\<bar> else - \<bar>x\<bar>)"
    using False not_overflow [OF b] by (simp only: round_double_def Let_def r if_False)
  then show ?thesis by (simp split: if_splits)
qed

lemma round_magnitude_Ints:
  assumes a: "a \<in> \<int>"
  shows "round_magnitude a \<in> \<int>"
proof -
  let ?e = "max (ilog2 a) (- 1022)"
  let ?u = "pow2 (?e - 52)"
  show ?thesis
  proof (cases "?e \<le> 52")
    case True
    with a have "a / ?u \<in> \<int>" by (rule quotient_Ints)
    then have "round_magnitude a = a"
      using round_half_even_int pow2_pos [of "?e - 52"]
      by (simp add: round_magnitude_def Let_def)
    with a show ?thesis by simp
  next
    case False
    then have "?u = 2 ^ nat (?e - 52)" by (intro pow2_nat) simp
    then show ?thesis by (simp add: round_magnitude_def Let_def)
  qed
qed

lemma round_double_Ints:
  assumes x: "x \<in> \<int>" and r: "round_double x = Fin y"
  shows "y \<in> \<int>"
proof -
  have "round_magnitude \<bar>x\<bar> \<in> \<int>"
    using x by (intro round_magnitude_Ints) auto
  moreover have "y = 0 \<or> y = round_magnitude \<bar>x\<bar> \<or> y = - round_magnitude \<bar>x\<bar>"
    using r by (auto simp: round_double_def Let_def split: if_splits)
  ultimately show ?thesis by auto
qed

lemma round_double_above_2_53: "round_double (2 ^ 53 + 1) = Fin (2 ^ 53)"
proof -
  have e: "ilog2 (2 ^ 53 + 1) = 53"
    by (rule ilog2_unique) (simp_all add: pow2_nat)
  have f: "\<lfloor>(2 ^ 53 + 1) / (2::rat)\<rfloor> = 2 ^ 52"
    by (rule floor_unique) simp_all
  have h: "round_half_even ((2 ^ 53 + 1) / 2) = 2 ^ 52"
    unfolding round_half_even_def Let_def f by simp
  have u: "pow2 (max (53::int) (- 1022) - 52) = 2"
    by (simp add: pow2_nat)
  have m: "round_magnitude (2 ^ 53 + 1) = 2 ^ 53"
    unfolding round_magnitude_def Let_def e u h by simp
  have a: "\<bar>2 ^ 53 + 1::rat\<bar> = 2 ^ 53 + 1" by simp
  have n: "\<not> pow2 1024 \<le> (2::rat) ^ 53"
    by (rule not_overflow) simp
  have p: "(0::rat) < 2 ^ 53 + 1" "(2::rat) ^ 53 + 1 \<noteq> 0" by simp_all
  show ?thesis
    unfolding round_double_def Let_def a m using n p by (simp only: if_True if_False)
qed

lemma js_add_exact:
  "a \<in> \<int> \<Longrightarrow> b \<in> \<int> \<Longrightarrow> \<bar>a + b\<bar> \<le> 2 ^ 53 \<Longrightarrow> js_add (Fin a) (Fin b) = Fin (a + b)"
  by (simp add: round_double_safe_integer)

lemma js_mul_exact:
  "a \<in> \<int> \<Longrightarrow> b \<in> \<int> \<Longrightarrow> \<bar>a * b\<bar> \<le> 2 ^ 53 \<Longrightarrow> js_mul (Fin a) (Fin b) = Fin (a * b)"
  by (simp add: round_double_safe_integer)

lemma integer_valued_iff: "integer_valued n \<longleftrightarrow> (\<exists>a. n = Fin a \<and> a \<in> \<int>)"
  by (cases n) (auto simp: Ints_def)

lemma positive_integer_Ints: "positive_integer a \<longleftrightarrow> a \<in> \<int> \<and> 1 \<le> a"
  by (auto simp: positive_integer_def Ints_def)

subsection \<open>The insertion-ordered map\<close>

lemma Map_get_None: "Map_get m k = None \<longleftrightarrow> k \<notin> fst ` set m"
  by (induction m) (force split: if_splits)+

lemma Map_get_Some: "Map_get m k = Some v \<Longrightarrow> (k, v) \<in> set m"
  by (induction m) (auto split: if_splits)

lemma Map_set_absent: "k \<notin> fst ` set m \<Longrightarrow> Map_set m k v = m @ [(k, v)]"
  by (induction m) auto

lemma keys_Map_set:
  "map fst (Map_set m k v) = (if k \<in> fst ` set m then map fst m else map fst m @ [k])"
  by (induction m) (force split: if_splits)+

lemma set_Map_set: "set (Map_set m k v) \<subseteq> insert (k, v) (set m)"
  by (induction m) (auto split: if_splits)

lemma sum_Map_set_present:
  "Map_get m k = Some e \<Longrightarrow>
     sum_list (map g (Map_set m k v)) = sum_list (map g m) - g (k, e) + (g (k, v) :: rat)"
  by (induction m) (auto split: if_splits)

lemma Map_get_Map_set: "Map_get (Map_set m k' v) k = (if k = k' then Some v else Map_get m k)"
  by (induction m) auto

lemma find_map_snd:
  "\<forall>e\<in>set m. ItemId (snd e) = fst e \<Longrightarrow>
     find (\<lambda>i. ItemId i = k) (map snd m) = Map_get m k"
  by (induction m) auto

lemma member_le_sum_list:
  fixes g :: "'a \<Rightarrow> rat"
  assumes "x \<in> set xs" and "\<forall>y\<in>set xs. 0 \<le> g y"
  shows "g x \<le> sum_list (map g xs)"
  using assms
proof (induction xs)
  case Nil
  then show ?case by simp
next
  case (Cons y ys)
  have "0 \<le> sum_list (map g ys)"
    using Cons.prems(2) by (intro sum_list_nonneg) auto
  with Cons show ?case by (cases "x = y") (auto intro: order_trans add_increasing)
qed

subsection \<open>Rounding a double gives it back\<close>

lemma pow2_add: "pow2 (m + n) = pow2 m * pow2 n"
  unfolding pow2_def by (rule power_int_add) simp

lemma pow2_diff: "pow2 (m - n) = pow2 m / pow2 n"
  unfolding pow2_def by (rule power_int_diff) simp

lemma pow2_Ints: "0 \<le> e \<Longrightarrow> pow2 e \<in> \<int>"
  by (simp add: pow2_nat)

lemma round_magnitude_grid:
  assumes N: "0 < N" "N \<le> 2 ^ 53" and e: "- 1022 \<le> e"
  shows "round_magnitude (of_int N * pow2 (e - 52)) = of_int N * pow2 (e - 52)"
proof -
  let ?r = "of_int N * pow2 (e - 52) :: rat"
  let ?e' = "max (ilog2 ?r) (- 1022)"
  let ?u' = "pow2 (?e' - 52)"
  have pos: "0 < ?r" using N(1) pow2_pos [of "e - 52"] by simp
  have "(of_int N :: rat) \<le> of_int (2 ^ 53)" using N(2) by (simp only: of_int_le_iff)
  then have N53: "(of_int N :: rat) \<le> pow2 53" by (simp add: pow2_nat)
  have "?r \<le> pow2 53 * pow2 (e - 52)"
    using N53 pow2_pos [of "e - 52"] by (intro mult_right_mono) auto
  also have "\<dots> = pow2 (53 + (e - 52))" by (rule pow2_add [symmetric])
  also have "53 + (e - 52) = e + 1" by simp
  finally have upper: "?r \<le> pow2 (e + 1)" .
  have q: "?r / ?u' \<in> \<int>"
  proof (cases "?e' \<le> e")
    case True
    have "?r / ?u' = of_int N * (pow2 (e - 52) / pow2 (?e' - 52))" by simp
    also have "pow2 (e - 52) / pow2 (?e' - 52) = pow2 (e - ?e')"
      by (simp add: pow2_diff [symmetric])
    finally have "?r / ?u' = of_int N * pow2 (e - ?e')" .
    moreover have "pow2 (e - ?e') \<in> \<int>" using True by (intro pow2_Ints) simp
    ultimately show ?thesis by simp
  next
    case False
    with e have e': "?e' = ilog2 ?r" and gt: "e < ilog2 ?r"
      by (simp_all add: max_def split: if_splits)
    have "pow2 (ilog2 ?r) \<le> ?r" using pos by (rule ilog2_lower)
    with upper have "pow2 (ilog2 ?r) \<le> pow2 (e + 1)" by linarith
    then have "ilog2 ?r \<le> e + 1" by (simp only: pow2_mono)
    with gt have i: "ilog2 ?r = e + 1" by simp
    have "pow2 (e + 1) \<le> ?r" using ilog2_lower [OF pos] by (simp only: i)
    with upper have r: "?r = pow2 (e + 1)" by simp
    have m: "max (e + 1) (- 1022) = e + 1" using e by simp
    have "?r / ?u' = pow2 (e + 1) / pow2 (e + 1 - 52)"
      by (simp only: i m) (simp only: r)
    also have "\<dots> = pow2 52" by (simp add: pow2_diff [symmetric])
    finally have "?r / ?u' = pow2 52" .
    then show ?thesis by (simp add: pow2_Ints)
  qed
  have c: "x / y * y = x" if "y \<noteq> 0" for x y :: rat
    using that by simp
  have "round_magnitude ?r = ?r / ?u' * ?u'"
    unfolding round_magnitude_def Let_def by (simp only: round_half_even_int [OF q])
  also have "\<dots> = ?r" using pow2_pos [of "?e' - 52"] by (intro c) simp
  finally show ?thesis .
qed

lemma round_half_even_bounds:
  "0 \<le> y \<Longrightarrow> 0 \<le> round_half_even y" "y < of_int n \<Longrightarrow> round_half_even y \<le> n"
proof -
  assume "0 \<le> y"
  then have "0 \<le> \<lfloor>y\<rfloor>" by simp
  then show "0 \<le> round_half_even y" by (simp add: round_half_even_def Let_def)
next
  assume "y < of_int n"
  then have "\<lfloor>y\<rfloor> < n" by (simp add: floor_less_iff)
  then show "round_half_even y \<le> n" by (simp add: round_half_even_def Let_def)
qed

lemma round_magnitude_fixed:
  assumes a: "0 < a" and m: "round_magnitude a \<noteq> 0"
  shows "round_magnitude (round_magnitude a) = round_magnitude a"
proof -
  let ?e = "max (ilog2 a) (- 1022)"
  let ?u = "pow2 (?e - 52)"
  let ?N = "round_half_even (a / ?u)"
  have r: "round_magnitude a = of_int ?N * ?u"
    by (simp add: round_magnitude_def Let_def)
  have u: "0 < ?u" by (rule pow2_pos)
  have "0 \<le> a / ?u" using a u by simp
  then have "0 \<le> ?N" by (rule round_half_even_bounds)
  moreover have "?N \<noteq> 0" using m r by auto
  ultimately have N0: "0 < ?N" by simp
  have "a < pow2 (ilog2 a + 1)" using a by (rule ilog2_upper)
  also have "\<dots> \<le> pow2 (?e + 1)" by (simp add: pow2_mono)
  also have "?e + 1 = 53 + (?e - 52)" by simp
  also have "pow2 (53 + (?e - 52)) = pow2 53 * ?u" by (rule pow2_add)
  finally have "a / ?u < pow2 53" using u by (simp add: divide_less_eq)
  then have "a / ?u < of_int (2 ^ 53)" by (simp add: pow2_nat)
  then have N1: "?N \<le> 2 ^ 53" by (rule round_half_even_bounds)
  have "- 1022 \<le> ?e" by simp
  from round_magnitude_grid [OF N0 N1 this] show ?thesis by (simp only: r)
qed

lemma round_magnitude_nonneg: "0 \<le> a \<Longrightarrow> 0 \<le> round_magnitude a"
proof -
  assume a: "0 \<le> a"
  let ?u = "pow2 (max (ilog2 a) (- 1022) - 52)"
  have "0 \<le> a / ?u" using a pow2_pos [of "max (ilog2 a) (- 1022) - 52"] by simp
  then have "0 \<le> round_half_even (a / ?u)" by (rule round_half_even_bounds)
  then show ?thesis
    using pow2_pos [of "max (ilog2 a) (- 1022) - 52"]
    by (simp add: round_magnitude_def Let_def)
qed

lemma round_double_idem:
  assumes "round_double x = Fin r"
  shows "round_double r = Fin r"
proof (cases "r = 0")
  case True
  then show ?thesis by (simp add: round_double_def)
next
  case False
  have x0: "x \<noteq> 0" using assms False by (auto simp: round_double_def)
  let ?m = "round_magnitude \<bar>x\<bar>"
  have nov: "\<not> pow2 1024 \<le> ?m" and r: "r = (if 0 < x then ?m else - ?m)"
    using assms x0 by (auto simp: round_double_def Let_def split: if_splits)
  have m0: "?m \<noteq> 0" using False r by (auto split: if_splits)
  have "0 \<le> ?m" by (rule round_magnitude_nonneg) simp
  with m0 have mpos: "0 < ?m" by simp
  have ar: "\<bar>r\<bar> = ?m" using r mpos by (auto split: if_splits)
  have fx: "round_magnitude ?m = ?m"
    using x0 m0 by (intro round_magnitude_fixed) auto
  have rm: "round_magnitude \<bar>r\<bar> = ?m" by (simp only: ar fx)
  have val: "(if 0 < r then ?m else - ?m) = r" using r mpos by (auto split: if_splits)
  have "round_double r = Fin (if 0 < r then ?m else - ?m)"
    using False nov by (simp only: round_double_def Let_def rm if_False)
  then show ?thesis by (simp only: val)
qed

lemma round_double_neg: "round_double (- x) = js_neg (round_double x)"
  by (simp add: round_double_def Let_def)

subsection \<open>One round of the loop, and the loop\<close>

lemma keys_forEach_body:
  "map fst (forEach_body m x) =
     (if ItemId x \<in> fst ` set m then map fst m else map fst m @ [ItemId x])"
  by (simp add: forEach_body_def Let_def keys_Map_set split: option.split)

lemma Map_get_forEach_body:
  "k \<noteq> ItemId x \<Longrightarrow> Map_get (forEach_body m x) k = Map_get m k"
  by (simp add: forEach_body_def Let_def Map_get_Map_set split: option.split)

lemma forEach_body_fresh:
  "ItemId x \<notin> fst ` set m \<Longrightarrow> forEach_body m x = m @ [(ItemId x, coerce_Quantity x)]"
  using Map_get_None [of m "ItemId x"]
  by (simp add: forEach_body_def Map_set_absent coerce_Quantity_def counted_def)

lemma forEach_body_ok:
  assumes m: "\<forall>e\<in>set m. entry_ok P e"
    and x: "P (counted x)"
    and upd: "\<And>a. P a \<Longrightarrow> P (js_add a (counted x))"
  shows "\<forall>e\<in>set (forEach_body m x). entry_ok P e"
proof (cases "Map_get m (ItemId x)")
  case None
  have "entry_ok P (ItemId x, x\<lparr>Quantity := Some (JNum (counted x))\<rparr>)"
    using x by (simp add: entry_ok_def)
  with m None set_Map_set show ?thesis
    by (fastforce simp: forEach_body_def Let_def counted_def)
next
  case (Some existing)
  then have "entry_ok P (ItemId x, existing)"
    using m Map_get_Some by blast
  then obtain a where a: "ItemId existing = ItemId x" "Quantity existing = Some (JNum a)" "P a"
    by (auto simp: entry_ok_def)
  have "entry_ok P (ItemId x,
          existing\<lparr>Quantity := add_assign (Quantity existing) (counted x)\<rparr>)"
    using a upd by (simp add: entry_ok_def)
  with m Some set_Map_set show ?thesis
    by (fastforce simp: forEach_body_def Let_def counted_def)
qed

lemma foldl_forEach_body_ok:
  assumes "\<forall>e\<in>set m. entry_ok P e"
    and "\<forall>x\<in>set xs. P (counted x) \<and> (\<forall>a. P a \<longrightarrow> P (js_add a (counted x)))"
  shows "\<forall>e\<in>set (foldl forEach_body m xs). entry_ok P e"
  using assms
proof (induction xs arbitrary: m)
  case Nil
  then show ?case by simp
next
  case (Cons x xs)
  have "\<forall>e\<in>set (forEach_body m x). entry_ok P e"
    using Cons.prems by (intro forEach_body_ok) auto
  with Cons show ?case by simp
qed

lemma keys_foldl_distinct:
  "distinct (map fst m) \<Longrightarrow> distinct (map fst (foldl forEach_body m xs))"
proof (induction xs arbitrary: m)
  case (Cons x xs)
  have "distinct (map fst (forEach_body m x))"
    using Cons.prems by (auto simp: keys_forEach_body)
  then show ?case using Cons.IH by simp
qed simp

lemma foldl_entries:
  "\<forall>e\<in>set m. entry_ok (\<lambda>n. True) e \<Longrightarrow>
     \<forall>e\<in>set (foldl forEach_body m xs). entry_ok (\<lambda>n. True) e"
  by (rule foldl_forEach_body_ok) auto

lemma byId_Quantity_number:
  "i \<in> set (combineDuplicateItems xs) \<Longrightarrow> \<exists>n. Quantity i = Some (JNum n)"
  using foldl_entries [of "[]" xs] by (auto simp: combineDuplicateItems_def entry_ok_def)

lemma ItemId_foldl:
  assumes "\<forall>e\<in>set m. entry_ok (\<lambda>n. True) e"
  shows "map (\<lambda>e. ItemId (snd e)) (foldl forEach_body m xs) = map fst (foldl forEach_body m xs)"
  using foldl_entries [OF assms, of xs] by (auto simp: entry_ok_def)

lemma distinct_combine: "distinct (map ItemId (combineDuplicateItems xs))"
proof -
  have "map ItemId (combineDuplicateItems xs) = map fst (foldl forEach_body [] xs)"
    using ItemId_foldl [of "[]" xs] by (simp add: combineDuplicateItems_def comp_def)
  then show ?thesis using keys_foldl_distinct [of "[]" xs] by simp
qed

lemma foldl_forEach_body_distinct:
  "distinct (map ItemId ys) \<Longrightarrow> ItemId ` set ys \<inter> fst ` set m = {} \<Longrightarrow>
     foldl forEach_body m ys = m @ map (\<lambda>i. (ItemId i, coerce_Quantity i)) ys"
proof (induction ys arbitrary: m)
  case Nil
  then show ?case by simp
next
  case (Cons y ys)
  have fresh: "ItemId y \<notin> fst ` set m"
    using Cons.prems(2) by auto
  have "ItemId ` set ys \<inter> fst ` set (m @ [(ItemId y, coerce_Quantity y)]) = {}"
    using Cons.prems by auto
  with Cons.IH [of "m @ [(ItemId y, coerce_Quantity y)]"] Cons.prems(1) fresh
  show ?case by (simp add: forEach_body_fresh)
qed

lemma combine_distinct:
  "distinct (map ItemId ys) \<Longrightarrow> combineDuplicateItems ys = map coerce_Quantity ys"
  using foldl_forEach_body_distinct [of ys "[]"]
  by (simp add: combineDuplicateItems_def comp_def)

text \<open>The numbers that \<open>|| 1\<close> keeps: every one but 0 and \<open>NaN\<close>.\<close>

lemma or_1_fixed: "or_1 n = n \<longleftrightarrow> n \<noteq> Fin 0 \<and> n \<noteq> NaN"
  by (cases n) auto

lemma or_1_or_1: "or_1 (or_1 n) = or_1 n"
  by (cases n) auto

lemma coerce_Quantity_fixed:
  "Quantity i = Some (JNum n) \<Longrightarrow> coerce_Quantity i = i \<longleftrightarrow> n \<noteq> Fin 0 \<and> n \<noteq> NaN"
proof -
  assume q: "Quantity i = Some (JNum n)"
  have "coerce_Quantity i = i \<longleftrightarrow> Quantity (coerce_Quantity i) = Quantity i"
    by (cases i) (auto simp: coerce_Quantity_def)
  also have "\<dots> \<longleftrightarrow> or_1 n = n"
    using q by (simp add: coerce_Quantity_def counted_def)
  finally show ?thesis by (simp add: or_1_fixed)
qed

lemma combine_fixed:
  assumes d: "distinct (map ItemId ys)"
    and n: "\<forall>i\<in>set ys. \<exists>n. Quantity i = Some (JNum n) \<and> n \<noteq> Fin 0 \<and> n \<noteq> NaN"
  shows "combineDuplicateItems ys = ys"
proof -
  have "map coerce_Quantity ys = ys"
    using n by (intro map_idI) (auto simp: coerce_Quantity_fixed)
  then show ?thesis using combine_distinct [OF d] by simp
qed

subsection \<open>Looking an Id up in the merged cart\<close>

lemma foldl_lookup_absent:
  "filter (\<lambda>i. ItemId i = k) ys = [] \<Longrightarrow>
     Map_get (foldl forEach_body m ys) k = Map_get m k"
proof (induction ys arbitrary: m)
  case Nil
  then show ?case by simp
next
  case (Cons y ys)
  then have "ItemId y \<noteq> k" and "filter (\<lambda>i. ItemId i = k) ys = []"
    by (auto split: if_splits)
  with Cons.IH [of "forEach_body m y"] show ?case
    by (simp add: Map_get_forEach_body)
qed

lemma foldl_lookup_once:
  "filter (\<lambda>i. ItemId i = k) ys = [y] \<Longrightarrow> Map_get m k = None \<Longrightarrow>
     Map_get (foldl forEach_body m ys) k = Some (coerce_Quantity y)"
proof (induction ys arbitrary: m)
  case Nil
  then show ?case by simp
next
  case (Cons x xs)
  show ?case
  proof (cases "ItemId x = k")
    case True
    with Cons.prems have x: "x = y" and rest: "filter (\<lambda>i. ItemId i = k) xs = []"
      by auto
    have "Map_get (forEach_body m x) k = Some (coerce_Quantity y)"
      using Cons.prems(2) True x
      by (simp add: forEach_body_def Let_def Map_get_Map_set coerce_Quantity_def counted_def)
    with foldl_lookup_absent [OF rest, of "forEach_body m x"] show ?thesis by simp
  next
    case False
    with Cons.prems have "filter (\<lambda>i. ItemId i = k) xs = [y]" by simp
    moreover have "Map_get (forEach_body m x) k = None"
      using False Cons.prems(2) by (simp add: Map_get_forEach_body)
    ultimately show ?thesis using Cons.IH by simp
  qed
qed

lemma find_combine_once:
  assumes "filter (\<lambda>i. ItemId i = k) ys = [y]"
  shows "find (\<lambda>i. ItemId i = k) (combineDuplicateItems ys) = Some (coerce_Quantity y)"
proof -
  have "\<forall>e\<in>set (foldl forEach_body [] ys). ItemId (snd e) = fst e"
    using foldl_entries [of "[]" ys] by (auto simp: entry_ok_def)
  then have "find (\<lambda>i. ItemId i = k) (combineDuplicateItems ys) =
      Map_get (foldl forEach_body [] ys) k"
    unfolding combineDuplicateItems_def by (rule find_map_snd)
  also have "\<dots> = Some (coerce_Quantity y)"
    using assms by (rule foldl_lookup_once) simp
  finally show ?thesis .
qed

lemma filter_distinct_find:
  "distinct (map ItemId c) \<Longrightarrow> find (\<lambda>i. ItemId i = k) c = Some item \<Longrightarrow>
     filter (\<lambda>i. ItemId i = k) c = [item]"
proof (induction c)
  case Nil
  then show ?case by simp
next
  case (Cons x xs)
  show ?case
  proof (cases "ItemId x = k")
    case True
    with Cons.prems have "x = item" and "k \<notin> ItemId ` set xs" by auto
    then have "filter (\<lambda>i. ItemId i = k) xs = []"
      by (auto simp: filter_empty_conv)
    with True \<open>x = item\<close> show ?thesis by simp
  next
    case False
    with Cons show ?thesis by simp
  qed
qed

subsection \<open>Sums that are exact\<close>

lemma exact_step:
  fixes P :: "rat \<Rightarrow> bool"
  assumes inv: "\<forall>e\<in>set m. entry_ok (\<lambda>n. \<exists>a. n = Fin a \<and> a \<in> \<int> \<and> P a) e"
    and x: "counted x = Fin q" "q \<in> \<int>" "P q"
    and add: "\<And>a b. P a \<Longrightarrow> P b \<Longrightarrow> P (a + b)"
    and bound: "(\<Sum>e\<leftarrow>m. magnitude (Number (Quantity (snd e)))) + \<bar>q\<bar> \<le> 2 ^ 53"
  shows "(\<forall>e\<in>set (forEach_body m x). entry_ok (\<lambda>n. \<exists>a. n = Fin a \<and> a \<in> \<int> \<and> P a) e)
    \<and> (\<Sum>e\<leftarrow>forEach_body m x. magnitude (Number (Quantity (snd e))))
        \<le> (\<Sum>e\<leftarrow>m. magnitude (Number (Quantity (snd e)))) + \<bar>q\<bar>
    \<and> (\<Sum>e\<leftarrow>forEach_body m x. finite_value (Number (Quantity (snd e))))
        = (\<Sum>e\<leftarrow>m. finite_value (Number (Quantity (snd e)))) + q"
proof (cases "Map_get m (ItemId x)")
  case None
  then have fresh: "ItemId x \<notin> fst ` set m" by (simp add: Map_get_None)
  have b: "forEach_body m x = m @ [(ItemId x, coerce_Quantity x)]"
    using fresh by (rule forEach_body_fresh)
  have "entry_ok (\<lambda>n. \<exists>a. n = Fin a \<and> a \<in> \<int> \<and> P a) (ItemId x, coerce_Quantity x)"
    using x by (simp add: entry_ok_def coerce_Quantity_def)
  with inv show ?thesis
    using x by (auto simp: b coerce_Quantity_def)
next
  case (Some existing)
  then have mem: "(ItemId x, existing) \<in> set m" by (rule Map_get_Some)
  with inv have "entry_ok (\<lambda>n. \<exists>a. n = Fin a \<and> a \<in> \<int> \<and> P a) (ItemId x, existing)"
    by blast
  then obtain a where a: "ItemId existing = ItemId x" "Quantity existing = Some (JNum (Fin a))"
      "a \<in> \<int>" "P a"
    by (auto simp: entry_ok_def)
  have "magnitude (Number (Quantity (snd (ItemId x, existing))))
      \<le> (\<Sum>e\<leftarrow>m. magnitude (Number (Quantity (snd e))))"
  proof (rule member_le_sum_list [OF mem])
    show "\<forall>y\<in>set m. 0 \<le> magnitude (Number (Quantity (snd y)))"
    proof
      fix y
      show "0 \<le> magnitude (Number (Quantity (snd y)))"
        by (cases "Number (Quantity (snd y))") simp_all
    qed
  qed
  then have le: "\<bar>a\<bar> \<le> (\<Sum>e\<leftarrow>m. magnitude (Number (Quantity (snd e))))"
    using a by simp
  then have "\<bar>a + q\<bar> \<le> 2 ^ 53" using bound by linarith
  then have sum: "js_add (Fin a) (Fin q) = Fin (a + q)"
    using a(3) x(2) by (intro js_add_exact)
  let ?new = "existing\<lparr>Quantity := Some (JNum (Fin (a + q)))\<rparr>"
  have b: "forEach_body m x = Map_set m (ItemId x) ?new"
    using Some a x sum by (simp add: forEach_body_def Let_def counted_def)
  have ok: "entry_ok (\<lambda>n. \<exists>a. n = Fin a \<and> a \<in> \<int> \<and> P a) (ItemId x, ?new)"
    using a x add by (simp add: entry_ok_def)
  have 1: "\<forall>e\<in>set (forEach_body m x). entry_ok (\<lambda>n. \<exists>a. n = Fin a \<and> a \<in> \<int> \<and> P a) e"
    using inv ok set_Map_set [of m "ItemId x" ?new] unfolding b by blast
  have 2: "(\<Sum>e\<leftarrow>forEach_body m x. magnitude (Number (Quantity (snd e))))
      = (\<Sum>e\<leftarrow>m. magnitude (Number (Quantity (snd e)))) - \<bar>a\<bar> + \<bar>a + q\<bar>"
    unfolding b using a
    by (simp add: sum_Map_set_present [OF Some, where g = "\<lambda>e. magnitude (Number (Quantity (snd e)))"])
  have 3: "(\<Sum>e\<leftarrow>forEach_body m x. finite_value (Number (Quantity (snd e))))
      = (\<Sum>e\<leftarrow>m. finite_value (Number (Quantity (snd e)))) - a + (a + q)"
    unfolding b using a
    by (simp add: sum_Map_set_present [OF Some, where g = "\<lambda>e. finite_value (Number (Quantity (snd e)))"])
  from 1 2 3 show ?thesis by (simp add: abs_triangle_ineq)
qed

lemma exact_fold:
  fixes P :: "rat \<Rightarrow> bool"
  assumes add: "\<And>a b. P a \<Longrightarrow> P b \<Longrightarrow> P (a + b)"
  shows "\<forall>e\<in>set m. entry_ok (\<lambda>n. \<exists>a. n = Fin a \<and> a \<in> \<int> \<and> P a) e \<Longrightarrow>
     \<forall>x\<in>set xs. \<exists>q. counted x = Fin q \<and> q \<in> \<int> \<and> P q \<Longrightarrow>
     (\<Sum>e\<leftarrow>m. magnitude (Number (Quantity (snd e)))) + (\<Sum>x\<leftarrow>xs. magnitude (counted x)) \<le> 2 ^ 53 \<Longrightarrow>
     (\<forall>e\<in>set (foldl forEach_body m xs). entry_ok (\<lambda>n. \<exists>a. n = Fin a \<and> a \<in> \<int> \<and> P a) e)
     \<and> (\<Sum>e\<leftarrow>foldl forEach_body m xs. magnitude (Number (Quantity (snd e))))
         \<le> (\<Sum>e\<leftarrow>m. magnitude (Number (Quantity (snd e)))) + (\<Sum>x\<leftarrow>xs. magnitude (counted x))
     \<and> (\<Sum>e\<leftarrow>foldl forEach_body m xs. finite_value (Number (Quantity (snd e))))
         = (\<Sum>e\<leftarrow>m. finite_value (Number (Quantity (snd e))))
           + (\<Sum>x\<leftarrow>xs. finite_value (counted x))"
proof (induction xs arbitrary: m)
  case Nil
  then show ?case by simp
next
  case (Cons x xs)
  from Cons.prems(2) obtain q where q: "counted x = Fin q" "q \<in> \<int>" "P q" by auto
  have nonneg: "0 \<le> (\<Sum>x\<leftarrow>xs. magnitude (counted x))"
  proof (rule sum_list_nonneg)
    fix y assume "y \<in> set (map (\<lambda>x. magnitude (counted x)) xs)"
    then obtain z where "y = magnitude (counted z)" by auto
    then show "0 \<le> y" by (cases "counted z") simp_all
  qed
  have b: "(\<Sum>e\<leftarrow>m. magnitude (Number (Quantity (snd e)))) + \<bar>q\<bar> \<le> 2 ^ 53"
    using Cons.prems(3) q(1) nonneg by simp
  note step = exact_step [OF Cons.prems(1) q add b]
  have b': "(\<Sum>e\<leftarrow>forEach_body m x. magnitude (Number (Quantity (snd e))))
      + (\<Sum>x\<leftarrow>xs. magnitude (counted x)) \<le> 2 ^ 53"
    using step Cons.prems(3) q(1) by simp
  have rest: "\<forall>x\<in>set xs. \<exists>q. counted x = Fin q \<and> q \<in> \<int> \<and> P q"
    using Cons.prems(2) by simp
  from Cons.IH [OF _ rest b'] step q(1) show ?case by simp
qed

lemma combine_exact:
  fixes P :: "rat \<Rightarrow> bool"
  assumes add: "\<And>a b. P a \<Longrightarrow> P b \<Longrightarrow> P (a + b)"
    and xs: "\<forall>x\<in>set xs. \<exists>q. counted x = Fin q \<and> q \<in> \<int> \<and> P q"
    and bound: "(\<Sum>x\<leftarrow>xs. magnitude (counted x)) \<le> 2 ^ 53"
  shows "(\<forall>i\<in>set (combineDuplicateItems xs). \<exists>a. Quantity i = Some (JNum (Fin a)) \<and> a \<in> \<int> \<and> P a)
    \<and> (\<Sum>i\<leftarrow>combineDuplicateItems xs. magnitude (Number (Quantity i))) \<le> 2 ^ 53
    \<and> (\<Sum>i\<leftarrow>combineDuplicateItems xs. finite_value (Number (Quantity i)))
        = (\<Sum>x\<leftarrow>xs. finite_value (counted x))"
  using exact_fold [of P "[]" xs, OF add] xs bound
  by (auto simp: combineDuplicateItems_def entry_ok_def comp_def)

lemma foldl_js_add_exact:
  "t \<in> \<int> \<Longrightarrow> list_all integer_valued ns \<Longrightarrow> \<bar>t\<bar> + sum_list (map magnitude ns) \<le> 2 ^ 53 \<Longrightarrow>
     foldl js_add (Fin t) ns = Fin (t + sum_list (map finite_value ns))"
proof (induction ns arbitrary: t)
  case Nil
  then show ?case by simp
next
  case (Cons n ns)
  from Cons.prems(2) obtain a where a: "n = Fin a" "a \<in> \<int>"
    by (auto simp: integer_valued_iff)
  have nonneg: "0 \<le> sum_list (map magnitude ns)"
  proof (rule sum_list_nonneg)
    fix y assume "y \<in> set (map magnitude ns)"
    then obtain z where "y = magnitude z" by auto
    then show "0 \<le> y" by (cases z) simp_all
  qed
  have "\<bar>t + a\<bar> \<le> 2 ^ 53"
    using Cons.prems(3) a(1) nonneg by simp
  then have s: "js_add (Fin t) (Fin a) = Fin (t + a)"
    using Cons.prems(1) a(2) by (intro js_add_exact)
  have "\<bar>t + a\<bar> + sum_list (map magnitude ns) \<le> 2 ^ 53"
    using Cons.prems(3) a(1) by simp
  with Cons.IH [of "t + a"] Cons.prems a s show ?case
    by (simp add: add.assoc)
qed

lemma js_sum_exact:
  "exactly_summable ns \<Longrightarrow> js_sum ns = Fin (sum_list (map finite_value ns))"
  using foldl_js_add_exact [of 0 ns] by (simp add: exactly_summable_def js_sum_def)

lemma reduce_total_exact_aux:
  "t \<in> \<int> \<Longrightarrow>
   list_all (\<lambda>item. integer_valued (Number (FinalPrice item)) \<and> integer_valued (counted item)) c \<Longrightarrow>
   \<bar>t\<bar> + (\<Sum>item\<leftarrow>c. magnitude (Number (FinalPrice item)) * magnitude (counted item)) \<le> 2 ^ 53 \<Longrightarrow>
   foldl (\<lambda>acc item.
            js_add acc (js_mul (Number (FinalPrice item)) (or_1 (Number (Quantity item)))))
     (Fin t) c
   = Fin (t + (\<Sum>item\<leftarrow>c. finite_value (Number (FinalPrice item)) * finite_value (counted item)))"
proof (induction c arbitrary: t)
  case Nil
  then show ?case by simp
next
  case (Cons i c)
  from Cons.prems(2) obtain p q where p: "Number (FinalPrice i) = Fin p" "p \<in> \<int>"
    and q: "counted i = Fin q" "q \<in> \<int>"
    by (auto simp: integer_valued_iff)
  have nonneg: "0 \<le> (\<Sum>item\<leftarrow>c. magnitude (Number (FinalPrice item)) * magnitude (counted item))"
  proof (rule sum_list_nonneg)
    fix y assume "y \<in> set (map (\<lambda>item. magnitude (Number (FinalPrice item)) * magnitude (counted item)) c)"
    then obtain z where "y = magnitude (Number (FinalPrice z)) * magnitude (counted z)" by auto
    then show "0 \<le> y"
      by (cases "Number (FinalPrice z)"; cases "counted z") simp_all
  qed
  have b: "\<bar>t\<bar> + \<bar>p * q\<bar> + (\<Sum>item\<leftarrow>c. magnitude (Number (FinalPrice item)) * magnitude (counted item))
      \<le> 2 ^ 53"
    using Cons.prems(3) p(1) q(1) by (simp add: abs_mult)
  have "\<bar>p * q\<bar> \<le> 2 ^ 53" using b nonneg by linarith
  then have m: "js_mul (Fin p) (Fin q) = Fin (p * q)"
    using p(2) q(2) by (intro js_mul_exact)
  have "\<bar>t + p * q\<bar> \<le> 2 ^ 53" using b nonneg by linarith
  then have s: "js_add (Fin t) (Fin (p * q)) = Fin (t + p * q)"
    using Cons.prems(1) p(2) q(2) by (intro js_add_exact) auto
  have b': "\<bar>t + p * q\<bar> + (\<Sum>item\<leftarrow>c. magnitude (Number (FinalPrice item)) * magnitude (counted item))
      \<le> 2 ^ 53"
    using b by linarith
  have t': "t + p * q \<in> \<int>" using Cons.prems(1) p(2) q(2) by auto
  have q': "or_1 (Number (Quantity i)) = Fin q" using q(1) by (simp add: counted_def)
  from Cons.IH [OF t' _ b'] Cons.prems(2) p(1) q(1) q' m s show ?case
    by (simp add: add.assoc del: js_add.simps js_mul.simps)
qed

lemma reduce_total_exact:
  "exactly_totalled c \<Longrightarrow>
     reduce_total c =
       Fin (\<Sum>item\<leftarrow>c. finite_value (Number (FinalPrice item)) * finite_value (counted item))"
  using reduce_total_exact_aux [of 0 c] by (simp add: exactly_totalled_def reduce_total_def)

subsection \<open>More on rounding: integers stay integers, positive stays positive\<close>

lemma round_magnitude_positive:
  assumes x: "x \<in> \<int>" "1 \<le> x"
  shows "1 \<le> round_magnitude x"
proof -
  let ?e = "max (ilog2 x) (- 1022)"
  let ?u = "pow2 (?e - 52)"
  have pos: "0 < x" using x(2) by simp
  show ?thesis
  proof (cases "?e \<le> 52")
    case True
    with x(1) have "x / ?u \<in> \<int>" by (rule quotient_Ints)
    then have "round_magnitude x = x"
      using round_half_even_int pow2_pos [of "?e - 52"]
      by (simp add: round_magnitude_def Let_def)
    with x(2) show ?thesis by simp
  next
    case False
    then have e: "?e = ilog2 x" by (simp add: max_def split: if_splits)
    have u: "?u = 2 ^ nat (?e - 52)" using False by (intro pow2_nat) simp
    have "?u \<le> pow2 ?e" by (simp only: pow2_mono)
    also have "\<dots> \<le> x" unfolding e using pos by (rule ilog2_lower)
    finally have "1 \<le> x / ?u" using pow2_pos [of "?e - 52"] by (simp add: le_divide_eq)
    then have "1 \<le> \<lfloor>x / ?u\<rfloor>" by (simp add: le_floor_iff)
    moreover have "\<lfloor>x / ?u\<rfloor> \<le> round_half_even (x / ?u)"
      by (simp add: round_half_even_def Let_def)
    ultimately have "1 \<le> round_half_even (x / ?u)" by linarith
    then have "(1::rat) \<le> of_int (round_half_even (x / ?u))" by simp
    moreover have "(1::rat) \<le> ?u" unfolding u by simp
    ultimately have "1 * 1 \<le> of_int (round_half_even (x / ?u)) * ?u"
      by (intro mult_mono) auto
    then show ?thesis by (simp add: round_magnitude_def Let_def)
  qed
qed

lemma round_double_positive_integer:
  assumes "positive_integer x"
  shows "round_double x = PInf \<or> (\<exists>y. round_double x = Fin y \<and> positive_integer y)"
proof -
  have x: "x \<in> \<int>" "1 \<le> x" using assms by (simp_all add: positive_integer_Ints)
  have a: "\<bar>x\<bar> = x" using x(2) by simp
  have "round_magnitude x \<in> \<int>" using x(1) by (rule round_magnitude_Ints)
  moreover have "1 \<le> round_magnitude x" using x by (rule round_magnitude_positive)
  ultimately show ?thesis
    using x(2) by (simp add: round_double_def Let_def a positive_integer_Ints)
qed

lemma parseInt10_cases:
  "parseInt10 v = NaN \<or> parseInt10 v = PInf \<or> parseInt10 v = NInf
     \<or> (\<exists>a. parseInt10 v = Fin a \<and> a \<in> \<int>)"
proof -
  have "round_double x = NaN \<or> round_double x = PInf \<or> round_double x = NInf
      \<or> (\<exists>a. round_double x = Fin a \<and> a \<in> \<int>)" if "x \<in> \<int>" for x
    using round_double_Ints [OF that] by (cases "round_double x") auto
  moreover have "s * of_int n \<in> \<int>" if "s = 1 \<or> s = - 1" for s :: rat and n :: int
    using that by auto
  ultimately show ?thesis
    by (auto simp: parseInt10_def Let_def split: list.splits)
qed

lemma clamped_quantity_positive_integer: "positive_integer (clamped_quantity v)"
  using parseInt10_cases [of v]
  by (auto simp: clamped_quantity_def positive_integer_Ints)

subsection \<open>Doubles\<close>

lemma is_double_round_double: "is_double (round_double x)"
  by (cases "round_double x") (simp_all add: is_double_def round_double_idem)

lemma is_double_simps:
  "is_double PInf" "is_double NInf" "is_double NaN" "is_double (Fin 0)" "is_double (Fin 1)"
  by (simp_all add: is_double_def round_double_safe_integer)

lemma is_double_js_add: "is_double (js_add a b)"
  by (cases a; cases b) (simp_all add: is_double_round_double is_double_simps)

lemma is_double_js_neg: "is_double n \<Longrightarrow> is_double (js_neg n)"
  by (cases n) (simp_all add: is_double_def round_double_neg)

lemma is_double_or_1: "is_double n \<Longrightarrow> is_double (or_1 n)"
  by (cases n) (simp_all add: is_double_simps)

lemma is_double_Math_max_1: "is_double n \<Longrightarrow> is_double (Math_max_1 n)"
  by (cases n) (auto simp: is_double_simps max_def)

lemma is_double_parseInt10: "is_double (parseInt10 v)"
  by (simp add: parseInt10_def Let_def is_double_round_double is_double_simps)

lemma is_double_unsigned_decimal: "is_double (unsigned_decimal v)"
  by (simp add: unsigned_decimal_def Let_def is_double_round_double is_double_simps
        split: list.split option.split)

lemma is_double_StringToNumber: "is_double (StringToNumber v)"
  by (simp add: StringToNumber_def Let_def is_double_round_double is_double_simps
        is_double_unsigned_decimal is_double_js_neg split: list.split option.split)

lemma JSON_parse_value_fixed:
  "JSON_parse_value v = v \<longleftrightarrow> (\<forall>n. v = JNum n \<longrightarrow> is_double n)"
proof (cases v)
  case (JNum n)
  then show ?thesis by (cases n) (simp_all add: is_double_def)
qed simp_all

lemma JSON_parse_value_idem: "JSON_parse_value (JSON_parse_value v) = JSON_parse_value v"
proof (cases v)
  case (JNum n)
  show ?thesis
  proof (cases n)
    case (Fin a)
    have "is_double (round_double a)" by (rule is_double_round_double)
    then have "JSON_parse_value (JNum (round_double a)) = JNum (round_double a)"
      by (simp add: JSON_parse_value_fixed)
    with JNum Fin show ?thesis by simp
  qed (simp_all add: JNum)
qed simp_all

lemma map_item_eq_iff:
  "map_item f i = i \<longleftrightarrow>
     map_option f (ItemId i) = ItemId i \<and> map_option f (Name i) = Name i
     \<and> map_option f (FinalPrice i) = FinalPrice i \<and> map_option f (Quantity i) = Quantity i"
  by (cases i) (auto simp: map_item_def)

lemma map_item_simps [simp]:
  "ItemId (map_item f i) = map_option f (ItemId i)"
  "Name (map_item f i) = map_option f (Name i)"
  "FinalPrice (map_item f i) = map_option f (FinalPrice i)"
  "Quantity (map_item f i) = map_option f (Quantity i)"
  by (simp_all add: map_item_def)

lemma double_fields_parse: "double_fields (map_item JSON_parse_value i)"
  by (simp add: double_fields_def map_item_eq_iff option.map_comp comp_def
        JSON_parse_value_idem)

lemma Number_is_double:
  "map_option JSON_parse_value q = q \<Longrightarrow> is_double (Number q)"
proof (cases q)
  case None
  then show ?thesis by (simp add: is_double_simps)
next
  case (Some v)
  assume "map_option JSON_parse_value q = q"
  with Some have "JSON_parse_value v = v" by simp
  with Some show ?thesis
    by (cases v) (auto simp: JSON_parse_value_fixed is_double_simps is_double_StringToNumber)
qed

lemma counted_is_double: "double_fields x \<Longrightarrow> is_double (counted x)"
  by (simp add: counted_def double_fields_def map_item_eq_iff Number_is_double is_double_or_1)

text \<open>
  The loop keeps every field but the \<open>Quantity\<close> of the items it is given: a property of
  items that does not look at the \<open>Quantity\<close> goes from the input to the output.
\<close>

lemma forEach_body_fields:
  assumes R: "\<And>i q. R (i\<lparr>Quantity := q\<rparr>) = R i"
    and m: "\<forall>e\<in>set m. R (snd e)" and x: "R x"
  shows "\<forall>e\<in>set (forEach_body m x). R (snd e)"
proof (cases "Map_get m (ItemId x)")
  case None
  with m x R set_Map_set show ?thesis
    by (fastforce simp: forEach_body_def Let_def)
next
  case (Some existing)
  then have "R existing" using m Map_get_Some by fastforce
  with m Some R set_Map_set show ?thesis
    by (fastforce simp: forEach_body_def Let_def)
qed

lemma foldl_forEach_body_fields:
  assumes R: "\<And>i q. R (i\<lparr>Quantity := q\<rparr>) = R i"
  shows "\<forall>e\<in>set m. R (snd e) \<Longrightarrow> \<forall>x\<in>set xs. R x \<Longrightarrow>
     \<forall>e\<in>set (foldl forEach_body m xs). R (snd e)"
proof (induction xs arbitrary: m)
  case Nil
  then show ?case by simp
next
  case (Cons x xs)
  have "\<forall>e\<in>set (forEach_body m x). R (snd e)"
    using R Cons.prems by (intro forEach_body_fields) auto
  with Cons show ?case by simp
qed

lemma combine_double_fields:
  assumes "\<forall>x\<in>set xs. double_fields x"
  shows "\<forall>i\<in>set (combineDuplicateItems xs). double_fields i"
proof
  fix i assume i: "i \<in> set (combineDuplicateItems xs)"
  let ?R = "\<lambda>i. map_option JSON_parse_value (ItemId i) = ItemId i
      \<and> map_option JSON_parse_value (Name i) = Name i
      \<and> map_option JSON_parse_value (FinalPrice i) = FinalPrice i"
  have "\<forall>e\<in>set (foldl forEach_body [] xs). ?R (snd e)"
    using assms by (intro foldl_forEach_body_fields) (auto simp: double_fields_def map_item_eq_iff)
  then have r: "?R i" using i by (auto simp: combineDuplicateItems_def)
  have "\<forall>e\<in>set (foldl forEach_body [] xs). entry_ok is_double e"
    using assms by (intro foldl_forEach_body_ok) (auto simp: counted_is_double is_double_js_add)
  then obtain n where "Quantity i = Some (JNum n)" "is_double n"
    using i by (auto simp: combineDuplicateItems_def entry_ok_def)
  then have "map_option JSON_parse_value (Quantity i) = Quantity i"
    by (simp add: JSON_parse_value_fixed)
  with r show "double_fields i" by (simp add: double_fields_def map_item_eq_iff)
qed

subsection \<open>The operations of the page\<close>

lemma getLocalStorage_array:
  "localStorage s ''so-cart'' = Some (Json (JArray ys)) \<Longrightarrow>
     getLocalStorage (localStorage s) ''so-cart''
       = Inr (JArray (map (map_item JSON_parse_value) ys))"
  by (simp add: getLocalStorage_def JSON_parse_def)

lemma loadCartItems_array:
  "getLocalStorage (localStorage s) ''so-cart'' = Inr (JArray xs) \<Longrightarrow>
     loadCartItems s = Inr (combineDuplicateItems xs)"
  by (simp add: loadCartItems_def or_empty_def array_of_def)

lemma getLocalStorage_double:
  "getLocalStorage st key = Inr (JArray xs) \<Longrightarrow> \<forall>x\<in>set xs. double_fields x"
proof -
  assume g: "getLocalStorage st key = Inr (JArray xs)"
  then obtain doc where "JSON_parse doc = JArray xs"
    by (auto simp: getLocalStorage_def split: option.splits stored.splits)
  then obtain ys where "xs = map (map_item JSON_parse_value) ys"
    by (cases doc) (auto simp: JSON_parse_def)
  then show ?thesis by (simp add: double_fields_parse)
qed

lemma loadCartItems_InrD:
  "loadCartItems s = Inr c \<Longrightarrow>
     \<exists>xs. c = combineDuplicateItems xs \<and> (\<forall>x\<in>set xs. double_fields x)"
proof -
  assume l: "loadCartItems s = Inr c"
  then obtain v where v: "getLocalStorage (localStorage s) ''so-cart'' = Inr v"
    and a: "array_of (or_empty v) = Inr (case or_empty v of JArray xs \<Rightarrow> xs | _ \<Rightarrow> [])"
    and c: "c = combineDuplicateItems (case or_empty v of JArray xs \<Rightarrow> xs | _ \<Rightarrow> [])"
    by (auto simp: loadCartItems_def array_of_def split: sum.splits json.splits)
  show ?thesis
  proof (cases "or_empty v")
    case (JArray xs)
    show ?thesis
    proof (cases "truthy v")
      case True
      with JArray have "v = JArray xs" by (simp add: or_empty_def)
      with v have "\<forall>x\<in>set xs. double_fields x" using getLocalStorage_double by blast
      with c JArray show ?thesis by auto
    next
      case False
      with JArray have "xs = []" by (simp add: or_empty_def)
      with c JArray show ?thesis by auto
    qed
  next
    case (JScalar w)
    with a show ?thesis by (simp add: array_of_def)
  next
    case JObject
    with a show ?thesis by (simp add: array_of_def)
  qed
qed

lemma loadCartItems_double:
  "loadCartItems s = Inr c \<Longrightarrow> \<forall>i\<in>set c. double_fields i"
  using loadCartItems_InrD combine_double_fields by blast

lemma loadCartItems_empty:
  "absent_or_falsy (localStorage s ''so-cart'') \<Longrightarrow> loadCartItems s = Inr []"
  by (auto simp: absent_or_falsy_def loadCartItems_def getLocalStorage_def or_empty_def
        array_of_def combineDuplicateItems_def split: option.splits stored.splits)

lemma stored_after_set:
  "setLocalStorage st ''so-cart'' (JArray ys) ''so-cart''
     = Some (Json (JArray (map (map_item JSON_stringify_value) ys)))"
  by (simp add: setLocalStorage_def JSON_stringify_def)

lemma read_after_set:
  "getLocalStorage (setLocalStorage st ''so-cart'' (JArray ys)) ''so-cart''
     = Inr (JArray (map JSON_item ys))"
  by (simp add: getLocalStorage_def setLocalStorage_def JSON_stringify_def JSON_parse_def
        JSON_item_def comp_def)

lemma setLocalStorage_twice:
  "setLocalStorage (setLocalStorage st key a) key b = setLocalStorage st key b"
  by (simp add: setLocalStorage_def)

lemma renderCartContents_array:
  "getLocalStorage (localStorage s) ''so-cart'' = Inr (JArray xs) \<Longrightarrow>
     renderCartContents s =
       Inr (s\<lparr>localStorage :=
                setLocalStorage (localStorage s) ''so-cart'' (JArray (combineDuplicateItems xs)),
              product_list := combineDuplicateItems xs\<rparr>)"
  by (simp add: renderCartContents_def loadCartItems_array)

lemma getCartTotal_array:
  "getLocalStorage (localStorage s) ''so-cart'' = Inr (JArray xs) \<Longrightarrow>
     getCartTotal s =
       Inr (s\<lparr>cart_total := reduce_total (combineDuplicateItems xs),
              cart_footer_hide := (reduce_total (combineDuplicateItems xs) = Fin 0)\<rparr>,
            reduce_total (combineDuplicateItems xs))"
  by (simp add: getCartTotal_def loadCartItems_array Let_def)

lemma countCartItems_array:
  "getLocalStorage (localStorage s) ''so-cart'' = Inr (JArray xs) \<Longrightarrow>
     \<exists>h. countCartItems s = Inr (s\<lparr>header_badge := h\<rparr>)"
proof (cases "header_badge s")
  case None
  assume "getLocalStorage (localStorage s) ''so-cart'' = Inr (JArray xs)"
  with None have "countCartItems s = Inr (s\<lparr>header_badge := None\<rparr>)"
    by (simp add: countCartItems_def)
  then show ?thesis by blast
next
  case (Some b)
  assume "getLocalStorage (localStorage s) ''so-cart'' = Inr (JArray xs)"
  with Some show ?thesis
    by (auto simp: countCartItems_def or_empty_def array_of_def Let_def)
qed

text \<open>What follows a write, when the page reads the array \<open>ys\<close> back: redraw, total, badge.\<close>

lemma redisplay:
  assumes "getLocalStorage (localStorage s1) ''so-cart'' = Inr (JArray ys)"
  shows "\<exists>h. (case renderCartContents s1 of
                Inl e \<Rightarrow> Inl e
              | Inr s2 \<Rightarrow>
                  (case getCartTotal s2 of
                     Inl e \<Rightarrow> Inl e
                   | Inr (s3, finalTotal) \<Rightarrow> countCartItems s3)) =
             Inr (s1\<lparr>localStorage :=
                       setLocalStorage (localStorage s1) ''so-cart''
                         (JArray (combineDuplicateItems ys)),
                     product_list := combineDuplicateItems ys,
                     cart_total :=
                       reduce_total
                         (combineDuplicateItems (map JSON_item (combineDuplicateItems ys))),
                     cart_footer_hide :=
                       (reduce_total
                          (combineDuplicateItems (map JSON_item (combineDuplicateItems ys)))
                        = Fin 0),
                     header_badge := h\<rparr>)"
proof -
  let ?c = "combineDuplicateItems ys"
  let ?t = "reduce_total (combineDuplicateItems (map JSON_item ?c))"
  let ?s2 = "s1\<lparr>localStorage := setLocalStorage (localStorage s1) ''so-cart'' (JArray ?c),
                 product_list := ?c\<rparr>"
  have r: "renderCartContents s1 = Inr ?s2"
    using assms by (rule renderCartContents_array)
  have st2: "getLocalStorage (localStorage ?s2) ''so-cart'' = Inr (JArray (map JSON_item ?c))"
    by (simp add: read_after_set)
  let ?s3 = "?s2\<lparr>cart_total := ?t, cart_footer_hide := (?t = Fin 0)\<rparr>"
  have g: "getCartTotal ?s2 = Inr (?s3, ?t)"
    using getCartTotal_array [OF st2] by simp
  have "getLocalStorage (localStorage ?s3) ''so-cart'' = Inr (JArray (map JSON_item ?c))"
    by (simp add: read_after_set)
  then obtain h where "countCartItems ?s3 = Inr (?s3\<lparr>header_badge := h\<rparr>)"
    using countCartItems_array by blast
  with r g show ?thesis by auto
qed

text \<open>The same after a write of \<open>ys\<close> itself.\<close>

lemma write_and_redisplay:
  "\<exists>h. (case renderCartContents
               (s\<lparr>localStorage := setLocalStorage (localStorage s) ''so-cart'' (JArray ys)\<rparr>) of
          Inl e \<Rightarrow> Inl e
        | Inr s2 \<Rightarrow>
            (case getCartTotal s2 of
               Inl e \<Rightarrow> Inl e
             | Inr (s3, finalTotal) \<Rightarrow> countCartItems s3)) =
       Inr (s\<lparr>localStorage :=
                 setLocalStorage (localStorage s) ''so-cart''
                   (JArray (combineDuplicateItems (map JSON_item ys))),
               product_list := combineDuplicateItems (map JSON_item ys),
               cart_total :=
                 reduce_total
                   (combineDuplicateItems
                      (map JSON_item (combineDuplicateItems (map JSON_item ys)))),
               cart_footer_hide :=
                 (reduce_total
                    (combineDuplicateItems
                       (map JSON_item (combineDuplicateItems (map JSON_item ys))))
                  = Fin 0),
               header_badge := h\<rparr>)"
proof -
  let ?s1 = "s\<lparr>localStorage := setLocalStorage (localStorage s) ''so-cart'' (JArray ys)\<rparr>"
  have "getLocalStorage (localStorage ?s1) ''so-cart'' = Inr (JArray (map JSON_item ys))"
    by (simp add: read_after_set)
  from redisplay [OF this] show ?thesis
    by (simp add: setLocalStorage_twice)
qed

lemma removeFromCart_result:
  assumes "loadCartItems s = Inr c"
  shows "\<exists>h. removeFromCart s itemId =
       Inr (s\<lparr>localStorage :=
                 setLocalStorage (localStorage s) ''so-cart''
                   (JArray (combineDuplicateItems (map JSON_item
                      (filter (\<lambda>item. \<not> strict_equal (ItemId item) itemId) c)))),
               product_list := combineDuplicateItems (map JSON_item
                      (filter (\<lambda>item. \<not> strict_equal (ItemId item) itemId) c)),
               cart_total :=
                 reduce_total
                   (combineDuplicateItems
                      (map JSON_item (combineDuplicateItems (map JSON_item
                         (filter (\<lambda>item. \<not> strict_equal (ItemId item) itemId) c))))),
               cart_footer_hide :=
                 (reduce_total
                    (combineDuplicateItems
                       (map JSON_item (combineDuplicateItems (map JSON_item
                          (filter (\<lambda>item. \<not> strict_equal (ItemId item) itemId) c)))))
                  = Fin 0),
               header_badge := h\<rparr>)"
  using write_and_redisplay [of s "filter (\<lambda>item. \<not> strict_equal (ItemId item) itemId) c"] assms
  by (simp add: removeFromCart_def Let_def)

text \<open>Line items that a write and the redraw leave as they are.\<close>

lemma kept_fixed:
  assumes d: "distinct (map ItemId ys)"
    and n: "\<forall>i\<in>set ys. \<exists>n. Quantity i = Some (JNum n)"
    and p: "\<forall>i\<in>set ys. double_fields i"
    and k: "\<forall>i\<in>set ys. kept_as_is i"
  shows "map JSON_item ys = ys" and "combineDuplicateItems ys = ys"
    and "map (map_item JSON_stringify_value) ys = ys"
proof -
  show "map JSON_item ys = ys"
    using k p by (intro map_idI) (simp add: kept_as_is_def double_fields_def JSON_item_def)
  show "map (map_item JSON_stringify_value) ys = ys"
    using k by (intro map_idI) (simp add: kept_as_is_def)
  show "combineDuplicateItems ys = ys"
  proof (rule combine_fixed [OF d], rule ballI)
    fix i assume i: "i \<in> set ys"
    with n obtain m where m: "Quantity i = Some (JNum m)" by auto
    from k i have j: "map_item JSON_stringify_value i = i"
      and z: "Quantity i \<noteq> Some (JNum (Fin 0))"
      by (simp_all add: kept_as_is_def)
    from j m have "JSON_stringify_value (JNum m) = JNum m"
      by (simp add: map_item_eq_iff)
    then have "m \<noteq> NaN" by (cases m) simp_all
    with m z show "\<exists>n. Quantity i = Some (JNum n) \<and> n \<noteq> Fin 0 \<and> n \<noteq> NaN" by auto
  qed
qed

lemma removeFromCart_kept:
  assumes load: "loadCartItems s = Inr c"
    and k: "\<forall>i\<in>set (filter (\<lambda>item. \<not> strict_equal (ItemId item) itemId) c). kept_as_is i"
  shows "\<exists>h. removeFromCart s itemId =
       Inr (s\<lparr>localStorage :=
                 setLocalStorage (localStorage s) ''so-cart''
                   (JArray (filter (\<lambda>item. \<not> strict_equal (ItemId item) itemId) c)),
               product_list := filter (\<lambda>item. \<not> strict_equal (ItemId item) itemId) c,
               cart_total :=
                 reduce_total (filter (\<lambda>item. \<not> strict_equal (ItemId item) itemId) c),
               cart_footer_hide :=
                 (reduce_total (filter (\<lambda>item. \<not> strict_equal (ItemId item) itemId) c)
                  = Fin 0),
               header_badge := h\<rparr>)"
proof -
  let ?ys = "filter (\<lambda>item. \<not> strict_equal (ItemId item) itemId) c"
  obtain xs where c: "c = combineDuplicateItems xs"
    using load loadCartItems_InrD by blast
  have d: "distinct (map ItemId ?ys)"
    unfolding c by (simp add: distinct_combine distinct_map_filter)
  have n: "\<forall>i\<in>set ?ys. \<exists>n. Quantity i = Some (JNum n)"
    unfolding c using byId_Quantity_number by auto
  have p: "\<forall>i\<in>set ?ys. double_fields i"
    using loadCartItems_double [OF load] by simp
  note fixed = kept_fixed(1,2) [OF d n p k]
  from removeFromCart_result [OF load, of itemId] show ?thesis
    by (simp only: fixed)
qed

subsection \<open>Particular roundings\<close>

lemma round_double_2_53_plus_1: "round_double 9007199254740993 = Fin 9007199254740992"
  using round_double_above_2_53 by simp

lemma round_double_2_53_plus_2: "round_double 9007199254740994 = Fin 9007199254740994"
proof -
  have e: "ilog2 (2 ^ 53 + 2) = 53"
    by (rule ilog2_unique) (simp_all add: pow2_nat)
  have q: "(2 ^ 53 + 2) / (2::rat) \<in> \<int>"
  proof -
    have "(2 ^ 53 + 2) / (2::rat) = of_int (2 ^ 52 + 1)" by simp
    then show ?thesis by (simp only: Ints_of_int)
  qed
  have u: "pow2 (max (53::int) (- 1022) - 52) = 2"
    by (simp add: pow2_nat)
  have m: "round_magnitude (2 ^ 53 + 2) = 2 ^ 53 + 2"
    unfolding round_magnitude_def Let_def e u using round_half_even_int [OF q] by simp
  have a: "\<bar>2 ^ 53 + 2::rat\<bar> = 2 ^ 53 + 2" by simp
  have lt: "(2::rat) ^ 53 + 2 < 2 ^ 54" by simp
  have "(2::rat) ^ 54 < 2 ^ 1024" by (intro power_strict_increasing) auto
  moreover have "pow2 1024 = 2 ^ 1024" by (simp add: pow2_nat del: power_numeral)
  ultimately have n: "\<not> pow2 1024 \<le> (2::rat) ^ 53 + 2" using lt by linarith
  have p: "(0::rat) < 2 ^ 53 + 2" "(2::rat) ^ 53 + 2 \<noteq> 0" by simp_all
  have "round_double (2 ^ 53 + 2) = Fin (2 ^ 53 + 2)"
    unfolding round_double_def Let_def a m using n p by (simp only: if_True if_False)
  then show ?thesis by simp
qed

lemma round_double_2_1024: "round_double (2 ^ 1023 + 2 ^ 1023) = PInf"
proof -
  have x: "(2::rat) ^ 1023 + 2 ^ 1023 = 2 ^ 1024" by simp
  have p1024: "pow2 1024 = 2 ^ 1024" by (simp add: pow2_nat del: power_numeral)
  have p1025: "pow2 (1024 + 1) = 2 ^ 1025" by (simp add: pow2_nat del: power_numeral)
  have "(2::rat) ^ 1024 < 2 ^ 1025" by (intro power_strict_increasing) auto
  then have e: "ilog2 (2 ^ 1024) = 1024"
    by (intro ilog2_unique) (simp_all only: p1024 p1025 order_refl)
  have u: "pow2 (max (1024::int) (- 1022) - 52) = 2 ^ 972"
    by (simp add: pow2_nat del: power_numeral)
  have d: "(2::rat) ^ 1024 / 2 ^ 972 = of_int (2 ^ 52)"
  proof -
    have "(2::rat) ^ 1024 = 2 ^ 52 * 2 ^ 972" by (simp only: power_add [symmetric]) simp
    then show ?thesis by simp
  qed
  have q: "(2::rat) ^ 1024 / 2 ^ 972 \<in> \<int>" by (simp only: d Ints_of_int)
  have r: "of_int (round_half_even (2 ^ 1024 / 2 ^ 972)) = (2::rat) ^ 1024 / 2 ^ 972"
    by (rule round_half_even_int [OF q])
  have c: "x / y * y = x" if "y \<noteq> 0" for x y :: rat
    using that by simp
  have m: "round_magnitude (2 ^ 1024) = 2 ^ 1024"
    unfolding round_magnitude_def Let_def e u r by (rule c) simp
  have a: "\<bar>2 ^ 1024::rat\<bar> = 2 ^ 1024" by simp
  have p: "(0::rat) < 2 ^ 1024" "(2::rat) ^ 1024 \<noteq> 0" by simp_all
  have "round_double (2 ^ 1024) = PInf"
    unfolding round_double_def Let_def a m p1024 using p by (simp only: if_True if_False order_refl)
  then show ?thesis by (simp only: x)
qed

lemma round_double_2_1023: "round_double (2 ^ 1023) = Fin (2 ^ 1023)"
proof -
  have p: "pow2 (1023 - 52) = 2 ^ 971" by (simp add: pow2_nat del: power_numeral)
  have "(2::rat) ^ 1023 = 2 ^ 52 * 2 ^ 971" by (simp only: power_add [symmetric]) simp
  then have g: "(2::rat) ^ 1023 = of_int (2 ^ 52) * pow2 (1023 - 52)" by (simp only: p) simp
  have "round_magnitude (of_int (2 ^ 52) * pow2 (1023 - 52)) = of_int (2 ^ 52) * pow2 (1023 - 52)"
    by (rule round_magnitude_grid) simp_all
  then have m: "round_magnitude (2 ^ 1023) = 2 ^ 1023" by (simp only: g [symmetric])
  have a: "\<bar>2 ^ 1023::rat\<bar> = 2 ^ 1023" by simp
  have p1024: "pow2 1024 = 2 ^ 1024" by (simp add: pow2_nat del: power_numeral)
  have "(2::rat) ^ 1023 < 2 ^ 1024" by (intro power_strict_increasing) auto
  then have n: "\<not> pow2 1024 \<le> (2::rat) ^ 1023" by (simp only: p1024 not_le)
  have z: "(0::rat) < 2 ^ 1023" "(2::rat) ^ 1023 \<noteq> 0" by simp_all
  show ?thesis
    unfolding round_double_def Let_def a m using n z by (simp only: if_True if_False)
qed

lemma round_double_half: "round_double (1 / 2) = Fin (1 / 2)"
proof -
  have p: "pow2 (- 1 - 52) = 1 / 2 ^ 53" by (simp add: pow2_neg)
  have g: "(1::rat) / 2 = of_int (2 ^ 52) * pow2 (- 1 - 52)" by (simp only: p) simp
  have "round_magnitude (of_int (2 ^ 52) * pow2 (- 1 - 52)) = of_int (2 ^ 52) * pow2 (- 1 - 52)"
    by (rule round_magnitude_grid) simp_all
  then have m: "round_magnitude (1 / 2) = 1 / 2" by (simp only: g [symmetric])
  have a: "\<bar>1 / 2::rat\<bar> = 1 / 2" by simp
  have n: "\<not> pow2 1024 \<le> (1::rat) / 2"
    using not_overflow [of "1 / 2"] by simp
  have z: "(0::rat) < 1 / 2" "(1::rat) / 2 \<noteq> 0" by simp_all
  show ?thesis
    unfolding round_double_def Let_def a m using n z by (simp only: if_True if_False)
qed

subsection \<open>Unfolding for concrete carts\<close>

lemmas eval_defs =
  combineDuplicateItems_def forEach_body_def Let_def line_item_def num_def page_with_def
  js_sum_def counted_def persisted_cart_def
  loadCartItems_def getLocalStorage_def or_empty_def array_of_def setLocalStorage_def
  JSON_stringify_def JSON_parse_def map_item_def renderCartContents_def getCartTotal_def
  reduce_total_def removeFromCart_def strict_equal_def countCartItems_def change_listener_def
  round_double_safe_integer

lemmas parse_defs =
  StringToNumber_def trim_def trim_start_def is_white_space_def radix_literal_def
  unsigned_decimal_def is_digit_def exponent_part_def all_digits_def scale10_def
  digits_value_def digit_value_def parseInt10_def

subsection \<open>Overflow, and what the change listener stores\<close>

lemma overflowing_sum: "js_add (Fin (2 ^ 1023)) (Fin (2 ^ 1023)) = PInf"
  by (simp only: js_add.simps round_double_2_1024)

lemma positive_or_infinite_add:
  assumes a: "a = PInf \<or> (\<exists>r. a = Fin r \<and> positive_integer r)"
    and q: "positive_integer q"
  shows "js_add a (Fin q) = PInf \<or> (\<exists>r. js_add a (Fin q) = Fin r \<and> positive_integer r)"
proof (cases a)
  case (Fin r)
  with a have "positive_integer r" by simp
  with q have "positive_integer (r + q)" by (auto simp: positive_integer_Ints)
  then show ?thesis using Fin round_double_positive_integer by simp
qed (use a in auto)

text \<open>Writing and reading keep an \<open>Id\<close> that is a string or missing, and make no other.\<close>

lemma JSON_stringify_value_JStr: "JSON_stringify_value v = JStr x \<longleftrightarrow> v = JStr x"
  by (cases v rule: JSON_stringify_value.cases) auto

lemma JSON_parse_value_JStr: "JSON_parse_value v = JStr x \<longleftrightarrow> v = JStr x"
  by (cases v rule: JSON_parse_value.cases) auto

lemma string_key:
  assumes "\<And>v x. f v = JStr x \<longleftrightarrow> v = JStr x"
  shows "map_option f v = map_option JStr d \<longleftrightarrow> v = map_option JStr d"
  using assms by (cases v; cases d) auto

lemma ItemId_stringify:
  "ItemId (map_item JSON_stringify_value i) = map_option JStr d
     \<longleftrightarrow> ItemId i = map_option JStr d"
  by (simp add: string_key JSON_stringify_value_JStr)

lemma ItemId_parse:
  "ItemId (map_item JSON_parse_value i) = map_option JStr d
     \<longleftrightarrow> ItemId i = map_option JStr d"
  by (simp add: string_key JSON_parse_value_JStr)

lemma ItemId_JSON_item:
  "ItemId (JSON_item i) = map_option JStr d \<longleftrightarrow> ItemId i = map_option JStr d"
  by (simp only: JSON_item_def ItemId_parse ItemId_stringify)

lemma filter_map_JSON_item:
  "filter (\<lambda>i. ItemId i = map_option JStr d) (map JSON_item zs) =
     map JSON_item (filter (\<lambda>i. ItemId i = map_option JStr d) zs)"
  by (induction zs) (simp_all add: ItemId_JSON_item)

lemma find_map_stringify:
  "find (\<lambda>i. ItemId i = map_option JStr d) (map (map_item JSON_stringify_value) zs) =
     map_option (map_item JSON_stringify_value)
       (find (\<lambda>i. ItemId i = map_option JStr d) zs)"
  by (induction zs) (simp_all add: ItemId_stringify del: map_item_simps)

lemma filter_assign_Quantity:
  "filter (\<lambda>i. ItemId i = k) c = [item] \<Longrightarrow>
     filter (\<lambda>i. ItemId i = k) (assign_Quantity k q c) = [item\<lparr>Quantity := Some (JNum q)\<rparr>]"
  by (induction c) (auto split: if_splits)

lemma stored_quantity:
  "JSON_stringify_value
     (JNum (or_1 (Number (Some (JSON_value (JNum (Math_max_1 (or_1 (parseInt10 v)))))))))
     = JNum (Fin (clamped_quantity v))"
proof (cases "parseInt10 v")
  case (Fin a)
  have "is_double (parseInt10 v)" by (rule is_double_parseInt10)
  with Fin have a: "round_double a = Fin a" by (simp add: is_double_def)
  have 1: "round_double 1 = Fin 1" by (simp add: round_double_safe_integer)
  from Fin a 1 show ?thesis
    by (auto simp: clamped_quantity_def JSON_value_def max_def)
qed (simp_all add: clamped_quantity_def JSON_value_def round_double_safe_integer)

lemma reduce_total_js_sum:
  "reduce_total c = js_sum (map (\<lambda>item. js_mul (Number (FinalPrice item)) (counted item)) c)"
  by (simp add: reduce_total_def js_sum_def foldl_map counted_def)

section \<open>The claims\<close>

subsection \<open>C1: no duplicate Id, and the quantities add up\<close>

text \<open>
  C1 as stated fails in two ways. \<open>Number(item.Quantity) || 1\<close> reads the number 0 as 1,
  where the claim counts a numeric quantity as itself: for the single item \<open>A:0\<close> the output
  quantities sum to 1 and the input, counted as the claim says, to 0. And the sums are sums
  of doubles, which round: from \<open>A:2^53, A:1, B:1, B:1\<close> the output is \<open>A:2^53, B:2\<close>
  (\<open>2^53 + 1\<close> is not a double), whose quantities sum to \<open>2^53 + 2\<close>, while adding the four
  input quantities in their order stays at \<open>2^53\<close>.
\<close>

theorem combine_sum_claimed_counterexample:
  "Quantity_sum (combineDuplicateItems [line_item ''A'' 10 (num 0)]) = Fin 1
   \<and> claimed_input_sum [line_item ''A'' 10 (num 0)] = Fin 0
   \<and> Quantity_sum (combineDuplicateItems
        [line_item ''A'' 10 (num 9007199254740992), line_item ''A'' 10 (num 1),
         line_item ''B'' 5 (num 1), line_item ''B'' 5 (num 1)]) = Fin 9007199254740994
   \<and> claimed_input_sum
        [line_item ''A'' 10 (num 9007199254740992), line_item ''A'' 10 (num 1),
         line_item ''B'' 5 (num 1), line_item ''B'' 5 (num 1)] = Fin 9007199254740992"
  by (simp add: eval_defs Quantity_sum_def claimed_input_sum_def claimed_quantity_def
        round_double_2_53_plus_1 round_double_2_53_plus_2)

text \<open>
  C1, amended: for every input sequence of cart line items, the output of
  \<open>combineDuplicateItems\<close> contains no two entries with the same \<open>Id\<close>; and when the input
  quantities, each counted as \<open>Number(Quantity) || 1\<close> (so 1 when its numeric coercion is 0 or
  \<open>NaN\<close>), are integers whose magnitudes add up to at most \<open>2^53\<close>, the sum of the output
  entries' \<open>Quantity\<close> fields equals the sum of the counted input quantities, and both are
  the exact sum: no addition rounds.
\<close>

theorem combine_distinct_and_sum:
  "distinct (map ItemId (combineDuplicateItems items))
   \<and> (exactly_summable (map counted items) \<longrightarrow>
        Quantity_sum (combineDuplicateItems items) = js_sum (map counted items)
        \<and> js_sum (map counted items) = Fin (\<Sum>item\<leftarrow>items. finite_value (counted item)))"
proof (intro conjI impI)
  show "distinct (map ItemId (combineDuplicateItems items))"
    by (rule distinct_combine)
  assume h: "exactly_summable (map counted items)"
  then have xs: "\<forall>x\<in>set items. \<exists>q. counted x = Fin q \<and> q \<in> \<int> \<and> True"
    and b: "(\<Sum>x\<leftarrow>items. magnitude (counted x)) \<le> 2 ^ 53"
    by (auto simp: exactly_summable_def list_all_iff integer_valued_iff comp_def)
  show in_sum: "js_sum (map counted items) = Fin (\<Sum>item\<leftarrow>items. finite_value (counted item))"
    using js_sum_exact [OF h] by (simp add: comp_def)
  note out = combine_exact [of "\<lambda>a. True" items, OF _ xs b]
  have "exactly_summable (map (\<lambda>item. Number (Quantity item)) (combineDuplicateItems items))"
    using out by (auto simp: exactly_summable_def list_all_iff integer_valued_iff comp_def)
  then have "Quantity_sum (combineDuplicateItems items) =
      Fin (\<Sum>i\<leftarrow>combineDuplicateItems items. finite_value (Number (Quantity i)))"
    unfolding Quantity_sum_def by (simp add: js_sum_exact comp_def)
  with out in_sum
  show "Quantity_sum (combineDuplicateItems items) = js_sum (map counted items)" by simp
qed

text \<open>
  C1 on five items with two \<open>Id\<close>s, whose quantities are 2, a non-numeric string, \<open>null\<close>,
  0 and a missing one: the output \<open>Id\<close>s are distinct and the quantities sum to 6.
\<close>

theorem combine_distinct_and_sum_witness:
  "distinct (map ItemId (combineDuplicateItems
      [line_item ''A'' 10 (num 2), line_item ''A'' 10 (Some (JStr ''abc'')),
       line_item ''B'' 5 (Some JNull), line_item ''A'' 10 (num 0), line_item ''B'' 5 None]))
   \<and> Quantity_sum (combineDuplicateItems
      [line_item ''A'' 10 (num 2), line_item ''A'' 10 (Some (JStr ''abc'')),
       line_item ''B'' 5 (Some JNull), line_item ''A'' 10 (num 0), line_item ''B'' 5 None])
     = Fin 6"
proof -
  let ?w = "[line_item ''A'' 10 (num 2), line_item ''A'' 10 (Some (JStr ''abc'')),
       line_item ''B'' 5 (Some JNull), line_item ''A'' 10 (num 0), line_item ''B'' 5 None]"
  have abc: "StringToNumber ''abc'' = NaN" by (simp add: parse_defs)
  have c: "map counted ?w = [Fin 2, Fin 1, Fin 1, Fin 1, Fin 1]"
    by (simp add: counted_def line_item_def num_def round_double_safe_integer abc)
  have h: "exactly_summable (map counted ?w)"
    unfolding c by (simp add: exactly_summable_def)
  have s: "js_sum (map counted ?w) = Fin 6"
    unfolding c by (simp add: js_sum_def round_double_safe_integer)
  from combine_distinct_and_sum [of ?w] h s show ?thesis by simp
qed

subsection \<open>C2: normalizing twice\<close>

text \<open>
  C2 as stated fails when the quantities of an \<open>Id\<close> add up to 0 or to \<open>NaN\<close>: the second
  pass reads that sum as 1 (\<open>Number(0) || 1\<close>). From \<open>A:2, A:-2\<close> the first pass gives \<open>A:0\<close>
  and the second \<open>A:1\<close>; from \<open>A:"Infinity", A:"-Infinity"\<close> the first pass gives \<open>A:NaN\<close>
  and the second \<open>A:1\<close>.
\<close>

theorem combine_twice_counterexample:
  "combineDuplicateItems (combineDuplicateItems
      [line_item ''A'' 10 (num 2), line_item ''A'' 10 (num (- 2))])
   \<noteq> combineDuplicateItems [line_item ''A'' 10 (num 2), line_item ''A'' 10 (num (- 2))]
   \<and> combineDuplicateItems (combineDuplicateItems
      [line_item ''A'' 10 (Some (JStr ''Infinity'')), line_item ''A'' 10 (Some (JStr ''-Infinity''))])
   \<noteq> combineDuplicateItems
      [line_item ''A'' 10 (Some (JStr ''Infinity'')), line_item ''A'' 10 (Some (JStr ''-Infinity''))]"
proof -
  have i: "StringToNumber ''Infinity'' = PInf" "StringToNumber ''-Infinity'' = NInf"
    by (simp_all add: parse_defs)
  show ?thesis by (simp add: eval_defs i)
qed

text \<open>
  C2, amended: for every input sequence \<open>x\<close> of cart line items,
  \<open>combineDuplicateItems(combineDuplicateItems(x))\<close> equals \<open>combineDuplicateItems(x)\<close> if and
  only if no entry of \<open>combineDuplicateItems(x)\<close> has the \<open>Quantity\<close> 0 or \<open>NaN\<close>.
\<close>

theorem combine_idempotent:
  "combineDuplicateItems (combineDuplicateItems x) = combineDuplicateItems x
     \<longleftrightarrow> (\<forall>i\<in>set (combineDuplicateItems x).
            Quantity i \<noteq> Some (JNum (Fin 0)) \<and> Quantity i \<noteq> Some (JNum NaN))"
proof -
  have "combineDuplicateItems (combineDuplicateItems x) = map coerce_Quantity (combineDuplicateItems x)"
    using distinct_combine by (rule combine_distinct)
  then have "combineDuplicateItems (combineDuplicateItems x) = combineDuplicateItems x
      \<longleftrightarrow> (\<forall>i\<in>set (combineDuplicateItems x). coerce_Quantity i = i)"
    by (simp add: map_idI [symmetric] map_eq_conv [of _ _ id, simplified])
  also have "\<dots> \<longleftrightarrow> (\<forall>i\<in>set (combineDuplicateItems x).
      Quantity i \<noteq> Some (JNum (Fin 0)) \<and> Quantity i \<noteq> Some (JNum NaN))"
  proof (rule ball_cong [OF refl])
    fix i assume "i \<in> set (combineDuplicateItems x)"
    then obtain n where n: "Quantity i = Some (JNum n)"
      using byId_Quantity_number by blast
    show "coerce_Quantity i = i \<longleftrightarrow>
        Quantity i \<noteq> Some (JNum (Fin 0)) \<and> Quantity i \<noteq> Some (JNum NaN)"
      using coerce_Quantity_fixed [OF n] n by simp
  qed
  finally show ?thesis .
qed

text \<open>
  C2 on \<open>A:2\<close>, \<open>A\<close> without a quantity and \<open>B:"abc"\<close>: one pass gives \<open>A:3, B:1\<close>, and so
  does a second.
\<close>

theorem combine_idempotent_witness:
  "combineDuplicateItems
      [line_item ''A'' 10 (num 2), line_item ''A'' 10 None,
       line_item ''B'' 5 (Some (JStr ''abc''))]
     = [line_item ''A'' 10 (num 3), line_item ''B'' 5 (num 1)]
   \<and> combineDuplicateItems (combineDuplicateItems
      [line_item ''A'' 10 (num 2), line_item ''A'' 10 None,
       line_item ''B'' 5 (Some (JStr ''abc''))])
     = [line_item ''A'' 10 (num 3), line_item ''B'' 5 (num 1)]"
proof -
  let ?x = "[line_item ''A'' 10 (num 2), line_item ''A'' 10 None,
             line_item ''B'' 5 (Some (JStr ''abc''))]"
  have abc: "StringToNumber ''abc'' = NaN" by (simp add: parse_defs)
  have c: "combineDuplicateItems ?x = [line_item ''A'' 10 (num 3), line_item ''B'' 5 (num 1)]"
    by (simp add: eval_defs abc)
  have h: "\<forall>i\<in>set (combineDuplicateItems ?x).
             Quantity i \<noteq> Some (JNum (Fin 0)) \<and> Quantity i \<noteq> Some (JNum NaN)"
    unfolding c by (simp add: line_item_def num_def round_double_safe_integer)
  show ?thesis using combine_idempotent [THEN iffD2, OF h] c by simp
qed

subsection \<open>C3: the quantities of the persisted cart\<close>

text \<open>
  C3 as stated fails: the normalizer replaces only a quantity whose coercion is 0 or \<open>NaN\<close>
  by 1, it does not clamp or round. With \<open>A:-3\<close> stored, loading the page persists the
  \<open>Quantity\<close> -3. And quantities that are positive integers can add up to more than a
  double holds: with \<open>A:2^1023\<close> stored twice the sum is \<open>Infinity\<close>, which
  \<open>JSON.stringify\<close> writes as \<open>null\<close>.
\<close>

theorem persisted_Quantity_counterexample:
  "map_sum id persisted_cart
     (renderCartContents (page_with (Some (Json (JArray [line_item ''A'' 10 (num (- 3))])))))
     = Inr [line_item ''A'' 10 (num (- 3))]
   \<and> \<not> Quantities_positive_integers [line_item ''A'' 10 (num (- 3))]
   \<and> map_sum id persisted_cart
       (renderCartContents (page_with (Some (Json (JArray
          [line_item ''A'' 10 (num (2 ^ 1023)), line_item ''A'' 10 (num (2 ^ 1023))])))))
     = Inr [line_item ''A'' 10 (Some JNull)]
   \<and> \<not> Quantities_positive_integers [line_item ''A'' 10 (Some JNull)]"
proof -
  have 1: "map_sum id persisted_cart
     (renderCartContents (page_with (Some (Json (JArray [line_item ''A'' 10 (num (- 3))])))))
     = Inr [line_item ''A'' 10 (num (- 3))]"
    by (simp add: eval_defs)
  have 2: "\<not> Quantities_positive_integers [line_item ''A'' 10 (num (- 3))]"
    by (simp add: Quantities_positive_integers_def positive_integer_def line_item_def num_def round_double_safe_integer)
  have 3: "map_sum id persisted_cart
       (renderCartContents (page_with (Some (Json (JArray
          [line_item ''A'' 10 (num (2 ^ 1023)), line_item ''A'' 10 (num (2 ^ 1023))])))))
     = Inr [line_item ''A'' 10 (Some JNull)]"
  proof -
    have r10: "round_double 10 = Fin 10" by (simp add: round_double_safe_integer)
    show ?thesis
      by (simp add: eval_defs r10 round_double_2_1023 overflowing_sum
            del: power_numeral js_add.simps)
  qed
  have 4: "\<not> Quantities_positive_integers [line_item ''A'' 10 (Some JNull)]"
    by (simp add: Quantities_positive_integers_def line_item_def)
  from 1 2 3 4 show ?thesis by blast
qed

text \<open>
  C3, amended: when the page reads from the store an array in which every \<open>Quantity\<close>,
  counted as \<open>Number(Quantity) || 1\<close>, is a positive integer, loading the page persists the
  normalized cart as \<open>JSON.stringify\<close> writes it; every \<open>Quantity\<close> of the normalized cart
  is a positive integer or, when the sum for an \<open>Id\<close> overflowed, \<open>Infinity\<close>; and when no
  sum overflowed every \<open>Quantity\<close> of the persisted cart is a positive integer, at minimum
  1. Negative and fractional input quantities are not clamped or rounded by the normalizer.
\<close>

theorem persisted_Quantity_positive_integer:
  assumes "getLocalStorage (localStorage s) ''so-cart'' = Inr (JArray items)"
    and "\<forall>item\<in>set items. \<exists>a. counted item = Fin a \<and> positive_integer a"
  shows "\<exists>s'. renderCartContents s = Inr s'
    \<and> persisted_cart s' = map (map_item JSON_stringify_value) (combineDuplicateItems items)
    \<and> (\<forall>i\<in>set (combineDuplicateItems items).
          Quantity i = Some (JNum PInf)
          \<or> (\<exists>a. Quantity i = Some (JNum (Fin a)) \<and> positive_integer a))
    \<and> ((\<forall>i\<in>set (combineDuplicateItems items). Quantity i \<noteq> Some (JNum PInf))
          \<longrightarrow> Quantities_positive_integers (persisted_cart s'))"
proof -
  let ?P = "\<lambda>n. n = PInf \<or> (\<exists>r. n = Fin r \<and> positive_integer r)"
  have "\<forall>e\<in>set (foldl forEach_body [] items). entry_ok ?P e"
  proof (rule foldl_forEach_body_ok)
    show "\<forall>e\<in>set []. entry_ok ?P e" by simp
    show "\<forall>x\<in>set items. ?P (counted x) \<and> (\<forall>a. ?P a \<longrightarrow> ?P (js_add a (counted x)))"
    proof
      fix x assume "x \<in> set items"
      with assms(2) obtain q where q: "counted x = Fin q" "positive_integer q" by auto
      show "?P (counted x) \<and> (\<forall>a. ?P a \<longrightarrow> ?P (js_add a (counted x)))"
        using q positive_or_infinite_add [OF _ q(2)] by simp
    qed
  qed
  then have out: "\<forall>i\<in>set (combineDuplicateItems items).
      Quantity i = Some (JNum PInf) \<or> (\<exists>a. Quantity i = Some (JNum (Fin a)) \<and> positive_integer a)"
    by (auto simp: combineDuplicateItems_def entry_ok_def)
  have fin: "Quantities_positive_integers
      (map (map_item JSON_stringify_value) (combineDuplicateItems items))"
    if "\<forall>i\<in>set (combineDuplicateItems items). Quantity i \<noteq> Some (JNum PInf)"
    using out that
    by (fastforce simp: Quantities_positive_integers_def list_all_iff)
  show ?thesis
    using renderCartContents_array [OF assms(1)] out fin
    by (simp add: persisted_cart_def stored_after_set)
qed

text \<open>
  C3 on \<open>A:2, A:0, B:"abc"\<close> and \<open>C\<close> without a quantity: the persisted cart is
  \<open>A:3, B:1, C:1\<close>.
\<close>

theorem persisted_Quantity_positive_integer_witness:
  "\<exists>s'. renderCartContents
           (page_with (Some (Json (JArray
              [line_item ''A'' 10 (num 2), line_item ''A'' 10 (num 0),
               line_item ''B'' 5 (Some (JStr ''abc'')), line_item ''C'' 1 None])))) = Inr s'
         \<and> persisted_cart s' =
             [line_item ''A'' 10 (num 3), line_item ''B'' 5 (num 1), line_item ''C'' 1 (num 1)]
         \<and> Quantities_positive_integers (persisted_cart s')"
proof -
  let ?items = "[line_item ''A'' 10 (num 2), line_item ''A'' 10 (num 0),
                 line_item ''B'' 5 (Some (JStr ''abc'')), line_item ''C'' 1 None]"
  have abc: "StringToNumber ''abc'' = NaN" by (simp add: parse_defs)
  have st: "getLocalStorage (localStorage (page_with (Some (Json (JArray ?items))))) ''so-cart''
              = Inr (JArray ?items)"
    by (simp add: eval_defs)
  have h: "\<forall>item\<in>set ?items. \<exists>a. counted item = Fin a \<and> positive_integer a"
    by (simp add: counted_def line_item_def num_def round_double_safe_integer abc positive_integer_def)
  have c: "combineDuplicateItems ?items =
      [line_item ''A'' 10 (num 3), line_item ''B'' 5 (num 1), line_item ''C'' 1 (num 1)]"
    by (simp add: eval_defs abc)
  have j: "map (map_item JSON_stringify_value) (combineDuplicateItems ?items)
      = combineDuplicateItems ?items"
    unfolding c by (simp add: map_item_def line_item_def num_def round_double_safe_integer)
  have n: "\<forall>i\<in>set (combineDuplicateItems ?items). Quantity i \<noteq> Some (JNum PInf)"
    unfolding c by (simp add: line_item_def num_def round_double_safe_integer)
  from persisted_Quantity_positive_integer [OF st h] n j c show ?thesis by auto
qed

subsection \<open>C4: a missing or malformed persisted value\<close>

text \<open>
  C4 as stated fails for two of its three cases. Text under \<open>so-cart\<close> that is not JSON
  makes \<open>JSON.parse\<close> throw in \<open>getLocalStorage\<close>, and nothing catches it: every
  operation throws a \<open>SyntaxError\<close>. A value that is truthy and not an array (here an
  object) passes \<open>|| []\<close> and has no \<open>forEach\<close>: a \<open>TypeError\<close>.
\<close>

theorem malformed_cart_throws_counterexample:
  "renderCartContents (page_with (Some NotJson)) = Inl SyntaxError
   \<and> getCartTotal (page_with (Some NotJson)) = Inl SyntaxError
   \<and> removeFromCart (page_with (Some NotJson)) (Some (JStr ''A'')) = Inl SyntaxError
   \<and> change_listener (page_with (Some NotJson))
        \<lparr>classList = [''cart-card__quantity-input''], dataset_id = Some ''A'',
         input_value = ''2''\<rparr> = Inl SyntaxError
   \<and> renderCartContents (page_with (Some (Json JObject))) = Inl TypeError"
  by (simp add: eval_defs)

text \<open>
  C4, amended: for every persisted value under the cart key that is absent or parses to a
  falsy value (\<open>null\<close>, \<open>false\<close>, \<open>0\<close> or the empty string), every cart operation
  (load-and-display, remove, set-quantity, total) treats the persisted state as an empty cart
  and does not throw: the page draws and persists the empty cart, the total is 0 with the
  summary hidden, set-quantity changes nothing, and remove persists the empty cart.
\<close>

theorem absent_or_falsy_cart_is_empty:
  assumes "absent_or_falsy (localStorage s ''so-cart'')"
  shows "loadCartItems s = Inr []
    \<and> renderCartContents s =
        Inr (s\<lparr>localStorage := setLocalStorage (localStorage s) ''so-cart'' (JArray []),
               product_list := []\<rparr>)
    \<and> getCartTotal s = Inr (s\<lparr>cart_total := Fin 0, cart_footer_hide := True\<rparr>, Fin 0)
    \<and> change_listener s t = Inr s
    \<and> (\<exists>h. removeFromCart s itemId =
          Inr (s\<lparr>localStorage := setLocalStorage (localStorage s) ''so-cart'' (JArray []),
                 product_list := [], cart_total := Fin 0, cart_footer_hide := True,
                 header_badge := h\<rparr>))"
proof -
  have l: "loadCartItems s = Inr []"
    using assms by (rule loadCartItems_empty)
  have e: "combineDuplicateItems [] = []"
    by (simp add: combineDuplicateItems_def)
  have r: "reduce_total [] = Fin 0"
    by (simp add: reduce_total_def)
  have "\<exists>h. removeFromCart s itemId =
          Inr (s\<lparr>localStorage := setLocalStorage (localStorage s) ''so-cart'' (JArray []),
                 product_list := [], cart_total := Fin 0, cart_footer_hide := True,
                 header_badge := h\<rparr>)"
    using removeFromCart_result [OF l, of itemId] by (simp add: e r)
  then show ?thesis
    using l by (simp add: renderCartContents_def getCartTotal_def change_listener_def r Let_def)
qed

text \<open>
  The amended C4 with the key absent, with \<open>0\<close> and with \<open>null\<close> stored.
\<close>

theorem absent_or_falsy_cart_is_empty_witness:
  "loadCartItems (page_with None) = Inr []
   \<and> getCartTotal (page_with (Some (Json (JScalar (JNum (Fin 0)))))) =
       Inr ((page_with (Some (Json (JScalar (JNum (Fin 0))))))
              \<lparr>cart_total := Fin 0, cart_footer_hide := True\<rparr>, Fin 0)
   \<and> change_listener (page_with (Some (Json (JScalar JNull))))
        \<lparr>classList = [''cart-card__quantity-input''], dataset_id = Some ''A'',
         input_value = ''2''\<rparr> = Inr (page_with (Some (Json (JScalar JNull))))"
proof -
  have a: "absent_or_falsy (localStorage (page_with None) ''so-cart'')"
    by (simp add: absent_or_falsy_def page_with_def)
  have b: "absent_or_falsy
      (localStorage (page_with (Some (Json (JScalar (JNum (Fin 0)))))) ''so-cart'')"
    by (simp add: absent_or_falsy_def page_with_def JSON_parse_def round_double_def)
  have c: "absent_or_falsy (localStorage (page_with (Some (Json (JScalar JNull)))) ''so-cart'')"
    by (simp add: absent_or_falsy_def page_with_def JSON_parse_def)
  show ?thesis
    using absent_or_falsy_cart_is_empty [OF a] absent_or_falsy_cart_is_empty [OF b] absent_or_falsy_cart_is_empty [OF c] by simp
qed

subsection \<open>C5: remove(id)\<close>




subsection \<open>C6: set-quantity on an existing id\<close>




subsection \<open>C7: set-quantity on an unknown id\<close>

text \<open>
  C7: for every persisted cart that the page reads and every id that matches no line item
  of the normalized cart \<open>c\<close>, the change listener returns without writing: the page, and
  with it the persisted store, is unchanged.
\<close>

theorem change_listener_unknown_id_noop:
  assumes "loadCartItems s = Inr c"
    and "find (\<lambda>cartItem. ItemId cartItem = map_option JStr (dataset_id t)) c = None"
  shows "change_listener s t = Inr s"
  using assms by (simp add: change_listener_def Let_def)

text \<open>
  C7 on the stored cart \<open>A:2, A:3\<close> and the id \<open>Z\<close>: the store keeps its two entries,
  unmerged.
\<close>

theorem change_listener_unknown_id_noop_witness:
  "change_listener
     (page_with (Some (Json (JArray [line_item ''A'' 10 (num 2), line_item ''A'' 10 (num 3)]))))
     \<lparr>classList = [''cart-card__quantity-input''], dataset_id = Some ''Z'',
      input_value = ''7''\<rparr>
   = Inr (page_with (Some (Json (JArray
        [line_item ''A'' 10 (num 2), line_item ''A'' 10 (num 3)]))))"
proof -
  let ?p = "page_with (Some (Json (JArray [line_item ''A'' 10 (num 2), line_item ''A'' 10 (num 3)])))"
  let ?t = "\<lparr>classList = [''cart-card__quantity-input''], dataset_id = Some ''Z'',
      input_value = ''7''\<rparr>"
  have l: "loadCartItems ?p = Inr [line_item ''A'' 10 (num 5)]"
    by (simp add: eval_defs)
  have f: "find (\<lambda>cartItem. ItemId cartItem = map_option JStr (dataset_id ?t))
             [line_item ''A'' 10 (num 5)] = None"
    by (simp add: line_item_def)
  show ?thesis by (rule change_listener_unknown_id_noop [OF l f])
qed

subsection \<open>C8: the total\<close>

text \<open>
  C8 as stated counts a quantity as 1 only when it is missing or not coercible to a number.
  The code also counts a \<open>Quantity\<close> of 0 as 1: the stored cart \<open>A:2, A:-2\<close> at price 10
  normalizes to \<open>A:0\<close>, for which the claim gives the total 0 and the code 10. And the total
  is a sum of doubles: for two items of quantity 1 at the prices \<open>2^53\<close> and 1 the code
  returns \<open>2^53\<close>, not \<open>2^53 + 1\<close>.
\<close>

theorem getCartTotal_claimed_counterexample:
  "map_sum id snd
     (getCartTotal (page_with (Some (Json (JArray
        [line_item ''A'' 10 (num 2), line_item ''A'' 10 (num (- 2))])))))
     = Inr (Fin 10)
   \<and> claimed_total [line_item ''A'' 10 (num 2), line_item ''A'' 10 (num (- 2))] = Fin 0
   \<and> map_sum id snd
     (getCartTotal (page_with (Some (Json (JArray
        [line_item ''A'' 9007199254740992 (num 1), line_item ''B'' 1 (num 1)])))))
     = Inr (Fin 9007199254740992)"
  by (simp add: eval_defs claimed_total_def claimed_quantity_def round_double_2_53_plus_1)

text \<open>
  C8, amended: for every persisted cart that the page reads, the totalizer returns the sum
  over the normalized items, added in their order in double arithmetic, of price times
  quantity, with each quantity whose numeric coercion is 0 or \<open>NaN\<close> counted as 1; when the
  prices and counted quantities are integers and the magnitudes of the products add up to
  at most \<open>2^53\<close>, nothing rounds and the total is the exact sum.
\<close>

theorem getCartTotal_sum:
  assumes "loadCartItems s = Inr c"
  shows "\<exists>s'. getCartTotal s =
           Inr (s', js_sum (map (\<lambda>item. js_mul (Number (FinalPrice item)) (counted item)) c))
    \<and> (exactly_totalled c \<longrightarrow>
         js_sum (map (\<lambda>item. js_mul (Number (FinalPrice item)) (counted item)) c)
         = Fin (\<Sum>item\<leftarrow>c. finite_value (Number (FinalPrice item)) * finite_value (counted item)))"
  using assms reduce_total_exact [of c]
  by (simp add: getCartTotal_def Let_def reduce_total_js_sum)

text \<open>
  C8 on the examples of the specification: the total of the empty cart is 0, and the total
  of \<open>[{price:10, qty:2}, {price:5, qty:1}]\<close> is 25.
\<close>

theorem getCartTotal_sum_witness:
  "(\<exists>s'. getCartTotal (page_with (Some (Json (JArray [])))) = Inr (s', Fin 0))
   \<and> (\<exists>s'. getCartTotal (page_with (Some (Json (JArray
          [line_item ''A'' 10 (num 2), line_item ''B'' 5 (num 1)]))))
        = Inr (s', Fin 25))"
proof -
  let ?c = "[line_item ''A'' 10 (num 2), line_item ''B'' 5 (num 1)]"
  have l0: "loadCartItems (page_with (Some (Json (JArray [])))) = Inr []"
    by (simp add: eval_defs)
  have l: "loadCartItems (page_with (Some (Json (JArray ?c)))) = Inr ?c"
    by (simp add: eval_defs)
  have e0: "exactly_totalled []"
    by (simp add: exactly_totalled_def)
  have e: "exactly_totalled ?c"
    by (simp add: exactly_totalled_def counted_def line_item_def num_def round_double_safe_integer)
  have v: "(\<Sum>item\<leftarrow>?c. finite_value (Number (FinalPrice item)) * finite_value (counted item)) = 25"
    by (simp add: counted_def line_item_def num_def round_double_safe_integer)
  from getCartTotal_sum [OF l0] e0
  have a: "\<exists>s'. getCartTotal (page_with (Some (Json (JArray [])))) = Inr (s', Fin 0)"
    by auto
  from getCartTotal_sum [OF l] e
  have "\<exists>s'. getCartTotal (page_with (Some (Json (JArray ?c))))
      = Inr (s', Fin (\<Sum>item\<leftarrow>?c. finite_value (Number (FinalPrice item)) * finite_value (counted item)))"
    by auto
  then have b: "\<exists>s'. getCartTotal (page_with (Some (Json (JArray ?c)))) = Inr (s', Fin 25)"
    by (simp only: v)
  from a b show ?thesis by blast
qed

subsection \<open>C9: the summary region\<close>

text \<open>
  C9: after every evaluation of the totalizer (on a persisted cart that the page reads, so
  that the evaluation returns), the cart summary region is hidden if and only if the
  computed total equals exactly 0; for any other total, \<open>NaN\<close> included, it is shown.
\<close>

theorem getCartTotal_footer_hidden_iff_zero:
  assumes "loadCartItems s = Inr c"
  shows "\<exists>s' finalTotal. getCartTotal s = Inr (s', finalTotal)
           \<and> (cart_footer_hide s' \<longleftrightarrow> finalTotal = Fin 0)"
  using assms by (simp add: getCartTotal_def Let_def)

text \<open>
  C9 on the empty cart (hidden) and on one item of price 10, quantity 2 (shown).
\<close>

theorem getCartTotal_footer_hidden_iff_zero_witness:
  "(\<exists>s'. getCartTotal (page_with None) = Inr (s', Fin 0) \<and> cart_footer_hide s')
   \<and> (\<exists>s'. getCartTotal (page_with (Some (Json (JArray [line_item ''A'' 10 (num 2)]))))
          = Inr (s', Fin 20)
        \<and> \<not> cart_footer_hide s')"
proof -
  let ?p = "page_with (Some (Json (JArray [line_item ''A'' 10 (num 2)])))"
  have l0: "loadCartItems (page_with None) = Inr []"
    by (simp add: eval_defs)
  have l: "loadCartItems ?p = Inr [line_item ''A'' 10 (num 2)]"
    by (simp add: eval_defs)
  have t0: "map_sum id snd (getCartTotal (page_with None)) = Inr (Fin 0)"
    by (simp add: eval_defs)
  have t: "map_sum id snd (getCartTotal ?p) = Inr (Fin 20)"
    by (simp add: eval_defs)
  from getCartTotal_footer_hidden_iff_zero [OF l0] t0
  have a: "\<exists>s'. getCartTotal (page_with None) = Inr (s', Fin 0) \<and> cart_footer_hide s'"
    by auto
  from getCartTotal_footer_hidden_iff_zero [OF l] t have b: "\<exists>s'. getCartTotal ?p = Inr (s', Fin 20) \<and> \<not> cart_footer_hide s'"
    by auto
  from a b show ?thesis by blast
qed

subsection \<open>C10: remove(id) on an unknown id\<close>

text \<open>
  C10 as stated fails when the normalized form is not what a second normalization keeps:
  the redraw after the removal normalizes the stored cart once more. From \<open>A:2, A:-2\<close>,
  \<open>remove("Z")\<close> leaves \<open>A:1\<close> persisted, while the normalized form of the cart is \<open>A:0\<close>;
  from \<open>A:"Infinity"\<close> it leaves \<open>A:1\<close> persisted, while the normalized form is
  \<open>A:Infinity\<close>.
\<close>

theorem removeFromCart_unknown_id_counterexample:
  "map_sum id persisted_cart
     (removeFromCart
        (page_with (Some (Json (JArray
           [line_item ''A'' 10 (num 2), line_item ''A'' 10 (num (- 2))]))))
        (Some (JStr ''Z'')))
     = Inr [line_item ''A'' 10 (num 1)]
   \<and> combineDuplicateItems [line_item ''A'' 10 (num 2), line_item ''A'' 10 (num (- 2))]
     = [line_item ''A'' 10 (num 0)]
   \<and> map_sum id persisted_cart
     (removeFromCart
        (page_with (Some (Json (JArray [line_item ''A'' 10 (Some (JStr ''Infinity''))]))))
        (Some (JStr ''Z'')))
     = Inr [line_item ''A'' 10 (num 1)]
   \<and> combineDuplicateItems [line_item ''A'' 10 (Some (JStr ''Infinity''))]
     = [line_item ''A'' 10 (Some (JNum PInf))]"
proof -
  have i: "StringToNumber ''Infinity'' = PInf"
    by (simp add: parse_defs)
  show ?thesis by (simp add: eval_defs i)
qed

text \<open>
  C10, amended: for every persisted cart that the page reads, with normalized form \<open>c\<close>,
  such that every line item of \<open>c\<close> is one that writing and redrawing leave as it is
  (none of its fields is \<open>NaN\<close> or infinite, and its \<open>Quantity\<close> is not 0), and every id
  that matches no line item of \<open>c\<close>, \<open>remove(id)\<close> nevertheless rewrites the persisted store
  with \<open>c\<close>: duplicate entries sharing an \<open>Id\<close> are merged and their quantities coerced and
  summed, so the stored representation can differ from the pre-operation value.
\<close>

theorem removeFromCart_unknown_id_rewrites:
  assumes "loadCartItems s = Inr c"
    and "\<forall>i\<in>set c. \<not> strict_equal (ItemId i) itemId"
    and "\<forall>i\<in>set c. kept_as_is i"
  shows "\<exists>s'. removeFromCart s itemId = Inr s'
           \<and> localStorage s' = setLocalStorage (localStorage s) ''so-cart'' (JArray c)
           \<and> persisted_cart s' = c"
proof -
  have f: "filter (\<lambda>item. \<not> strict_equal (ItemId item) itemId) c = c"
    using assms(2) by (simp add: filter_id_conv)
  have k: "\<forall>i\<in>set (filter (\<lambda>item. \<not> strict_equal (ItemId item) itemId) c). kept_as_is i"
    using assms(3) by simp
  have j: "map (map_item JSON_stringify_value) c = c"
    using assms(3) by (intro map_idI) (simp add: kept_as_is_def)
  from removeFromCart_kept [OF assms(1) k] show ?thesis
    by (auto simp: f persisted_cart_def stored_after_set j)
qed

text \<open>
  C10 on the stored cart \<open>A:2, A:3\<close> and the id \<open>Z\<close>: afterwards \<open>A:5\<close> is persisted, which
  is not what was stored before.
\<close>

theorem removeFromCart_unknown_id_rewrites_witness:
  "\<exists>s'. removeFromCart
           (page_with (Some (Json (JArray
              [line_item ''A'' 10 (num 2), line_item ''A'' 10 (num 3)]))))
           (Some (JStr ''Z'')) = Inr s'
        \<and> persisted_cart s' = [line_item ''A'' 10 (num 5)]
        \<and> persisted_cart s' \<noteq>
            persisted_cart (page_with (Some (Json (JArray
              [line_item ''A'' 10 (num 2), line_item ''A'' 10 (num 3)]))))"
proof -
  let ?p = "page_with (Some (Json (JArray
              [line_item ''A'' 10 (num 2), line_item ''A'' 10 (num 3)])))"
  let ?c = "[line_item ''A'' 10 (num 5)]"
  have l: "loadCartItems ?p = Inr ?c"
    by (simp add: eval_defs)
  have n: "\<forall>i\<in>set ?c. \<not> strict_equal (ItemId i) (Some (JStr ''Z''))"
    by (simp add: line_item_def strict_equal_def)
  have h: "\<forall>i\<in>set ?c. kept_as_is i"
    by (simp add: line_item_def num_def round_double_safe_integer kept_as_is_def map_item_def)
  have d: "persisted_cart ?p \<noteq> ?c"
    by (simp add: persisted_cart_def page_with_def)
  from removeFromCart_unknown_id_rewrites [OF l n h] d show ?thesis by auto
qed

end
